theory Spec2Isabelle
  imports Complex_Main
begin

section \<open>The notebook \<open>ValidationSet_Pitfall.ipynb\<close>\<close>

text \<open>
  The notebook is a sequence of cells: \<open>gen_data\<close>, Algorithm 1 (a sweep over
  \<open>max_depth\<close> that keeps the highest validation score), \<open>estimate_variance\<close> and
  Algorithm 2 (a refinement loop that keeps the lowest squared bias plus variance).

  Python floats are read as real numbers (no rounding, no NaN), Python integers as
  \<open>int\<close>. The state of NumPy's global generator is an element of type \<open>'g\<close> that every
  operation drawing from it takes and returns; an object a function mutates (the
  model that \<open>fit\<close> is called on) is likewise taken and returned.

  What scikit-learn and NumPy compute is not part of the notebook: the generator, the
  choice of a resample, the positions of a split, the learner and its scores are the
  fields of the record \<open>lib\<close>, and every statement below holds for all of them
  unless it says otherwise. Where the libraries refuse their arguments on the
  notebook's paths, the model raises as they do: \<open>np.random.seed\<close> on a seed outside
  \<open>0 .. 2**32 - 1\<close>, and \<open>fit\<close> on no rows or on rows and labels of two lengths.
  What the notebook does with the containers itself (indexing lists, arrays and
  frames, \<open>assert\<close>, \<open>argmax\<close> and \<open>argmin\<close>) raises here where Python raises.
\<close>

subsection \<open>Errors and containers\<close>

datatype error = AssertionError | ValueError | IndexError | KeyError | NotFittedError

text \<open>A NumPy array of one or of two dimensions.\<close>

datatype ndarray = Arr1 "real list" | Arr2 "real list list"

text \<open>\<open>len(a)\<close>: the entries of one dimension, the rows of two.\<close>

fun nd_len :: "ndarray \<Rightarrow> nat" where
  "nd_len (Arr1 vs) = length vs"
| "nd_len (Arr2 rs) = length rs"

text \<open>A pandas frame and a pandas series: the index labels, and the rows or values.\<close>

record dataframe =
  df_index :: "nat list"
  df_columns :: "string list"
  df_rows :: "real list list"

record series =
  s_index :: "nat list"
  s_values :: "real list"

definition len_df :: "dataframe \<Rightarrow> nat" where
  "len_df d = length (df_rows d)"

definition len_series :: "series \<Rightarrow> nat" where
  "len_series s = length (s_values s)"

text \<open>\<open>np.array\<close> of a frame, of a series.\<close>

definition array_df :: "dataframe \<Rightarrow> ndarray" where
  "array_df d = Arr2 (df_rows d)"

definition array_series :: "series \<Rightarrow> ndarray" where
  "array_series s = Arr1 (s_values s)"

text \<open>
  \<open>xs[i]\<close> on a Python list: positions \<open>0 .. len - 1\<close> from the front, \<open>-1 .. -len\<close>
  from the back, \<open>IndexError\<close> for every other \<open>i\<close>.
\<close>

definition py_index :: "'a list \<Rightarrow> int \<Rightarrow> error + 'a" where
  "py_index xs i =
     (if 0 \<le> i \<and> i < int (length xs) then Inr (xs ! nat i)
      else if i < 0 \<and> - int (length xs) \<le> i then Inr (xs ! nat (int (length xs) + i))
      else Inl IndexError)"

text \<open>A list comprehension whose body may raise: the first error ends it.\<close>

fun map_err :: "('a \<Rightarrow> error + 'b) \<Rightarrow> 'a list \<Rightarrow> error + 'b list" where
  "map_err f [] = Inr []"
| "map_err f (x # xs) =
     (case f x of
        Inl e \<Rightarrow> Inl e
      | Inr v \<Rightarrow> (case map_err f xs of Inl e \<Rightarrow> Inl e | Inr vs \<Rightarrow> Inr (v # vs)))"

definition py_take :: "'a list \<Rightarrow> int list \<Rightarrow> error + 'a list" where
  "py_take xs idx = map_err (py_index xs) idx"

text \<open>\<open>a[indices]\<close>: the entries, or the rows, at a list of positions.\<close>

fun nd_take :: "ndarray \<Rightarrow> int list \<Rightarrow> error + ndarray" where
  "nd_take (Arr1 vs) idx = (case py_take vs idx of Inl e \<Rightarrow> Inl e | Inr r \<Rightarrow> Inr (Arr1 r))"
| "nd_take (Arr2 rs) idx = (case py_take rs idx of Inl e \<Rightarrow> Inl e | Inr r \<Rightarrow> Inr (Arr2 r))"

text \<open>
  The numbers in \<open>pred[i]\<close>: one number when \<open>pred\<close> has one dimension, the row \<open>i\<close>
  when it has two.
\<close>

fun nd_item :: "ndarray \<Rightarrow> int \<Rightarrow> error + real list" where
  "nd_item (Arr1 vs) i = (case py_index vs i of Inl e \<Rightarrow> Inl e | Inr v \<Rightarrow> Inr [v])"
| "nd_item (Arr2 rs) i = py_index rs i"

text \<open>
  \<open>np.mean\<close> and \<open>np.var\<close> (the population variance) of the numbers of an array.
  NumPy answers NaN on no numbers at all; here the quotient by zero is \<open>0\<close>.
\<close>

definition np_mean :: "real list \<Rightarrow> real" where
  "np_mean xs = sum_list xs / real (length xs)"

definition np_var :: "real list \<Rightarrow> real" where
  "np_var xs = np_mean (map (\<lambda>x. (x - np_mean xs)\<^sup>2) xs)"

subsection \<open>The libraries\<close>

text \<open>
  A decision tree regressor: its two hyperparameters, and what \<open>fit\<close> has learnt
  (\<open>None\<close> before the first \<open>fit\<close>).
\<close>

record 'f tree =
  hp_max_depth :: int
  hp_random_state :: "int option"
  fitted :: "'f option"

record ('g, 'f) lib =
  np_random_seed :: "int \<Rightarrow> 'g"
  np_random_random :: "'g \<Rightarrow> real \<times> 'g"
  np_random_choice :: "int list \<Rightarrow> nat \<Rightarrow> 'g \<Rightarrow> int list \<times> 'g"
  split_positions :: "nat \<Rightarrow> real \<Rightarrow> int \<Rightarrow> nat list \<times> nat list"
  tree_fit :: "int \<Rightarrow> int option \<Rightarrow> ndarray \<Rightarrow> ndarray \<Rightarrow> 'g \<Rightarrow> 'f \<times> 'g"
  tree_predict :: "'f \<Rightarrow> ndarray \<Rightarrow> ndarray"
  tree_score :: "'f \<Rightarrow> ndarray \<Rightarrow> ndarray \<Rightarrow> real"
  mean_squared_error :: "ndarray \<Rightarrow> ndarray \<Rightarrow> real"

text \<open>\<open>DecisionTreeRegressor(max_depth=d, random_state=r)\<close>.\<close>

definition DecisionTreeRegressor :: "int \<Rightarrow> int option \<Rightarrow> 'f tree" where
  "DecisionTreeRegressor d r = \<lparr>hp_max_depth = d, hp_random_state = r, fitted = None\<rparr>"

text \<open>
  \<open>model.fit(x, y)\<close> replaces what the model has learnt. scikit-learn validates the
  data first and raises \<open>ValueError\<close> when \<open>x\<close> has no row or when \<open>x\<close> and \<open>y\<close>
  differ in length.
\<close>

definition fit :: "('g, 'f) lib \<Rightarrow> 'f tree \<Rightarrow> ndarray \<Rightarrow> ndarray \<Rightarrow> 'g \<Rightarrow>
    error + ('f tree \<times> 'g)" where
  "fit L model x y g =
     (if nd_len x = 0 \<or> nd_len x \<noteq> nd_len y then Inl ValueError
      else
        let (f, g') = tree_fit L (hp_max_depth model) (hp_random_state model) x y g
        in Inr (model\<lparr>fitted := Some f\<rparr>, g'))"

definition predict :: "('g, 'f) lib \<Rightarrow> 'f tree \<Rightarrow> ndarray \<Rightarrow> error + ndarray" where
  "predict L model x =
     (case fitted model of None \<Rightarrow> Inl NotFittedError | Some f \<Rightarrow> Inr (tree_predict L f x))"

definition score :: "('g, 'f) lib \<Rightarrow> 'f tree \<Rightarrow> ndarray \<Rightarrow> ndarray \<Rightarrow> error + real" where
  "score L model x y =
     (case fitted model of None \<Rightarrow> Inl NotFittedError | Some f \<Rightarrow> Inr (tree_score L f x y))"

subsection \<open>\<open>estimate_variance\<close>\<close>

text \<open>
  The loop \<open>for _ in range(iters)\<close>: the model, the predictions collected so far and
  the generator are its state.
\<close>

fun bootstrap :: "('g, 'f) lib \<Rightarrow> nat \<Rightarrow> int list \<Rightarrow> ndarray \<Rightarrow> ndarray \<Rightarrow> dataframe \<Rightarrow>
    'f tree \<Rightarrow> ndarray list \<Rightarrow> 'g \<Rightarrow> error + (ndarray list \<times> 'f tree \<times> 'g)" where
  "bootstrap L 0 all_indices x_train y_train x_valid model preds g = Inr (preds, model, g)"
| "bootstrap L (Suc n) all_indices x_train y_train x_valid model preds g =
     (let (subset_of_indices, g1) =
            np_random_choice L all_indices (length all_indices div 2) g
      in case nd_take x_train subset_of_indices of
           Inl e \<Rightarrow> Inl e
         | Inr subset_x_train \<Rightarrow>
         (case nd_take y_train subset_of_indices of
            Inl e \<Rightarrow> Inl e
          | Inr subset_y_train \<Rightarrow>
          (case fit L model subset_x_train subset_y_train g1 of
             Inl e \<Rightarrow> Inl e
           | Inr (model1, g2) \<Rightarrow>
             (case predict L model1 (array_df x_valid) of
                Inl e \<Rightarrow> Inl e
              | Inr pred \<Rightarrow>
                  bootstrap L n all_indices x_train y_train x_valid model1
                    (preds @ [pred]) g2))))"

text \<open>\<open>[pred[i] for pred in preds]\<close>, flattened as \<open>np.var\<close> reads it.\<close>

definition items_at :: "ndarray list \<Rightarrow> int \<Rightarrow> error + real list" where
  "items_at preds i =
     (case map_err (\<lambda>pred. nd_item pred i) preds of
        Inl e \<Rightarrow> Inl e
      | Inr vs \<Rightarrow> Inr (concat vs))"

text \<open>\<open>[np.var([pred[i] for pred in preds]) for i in ...]\<close>.\<close>

definition variances_of :: "ndarray list \<Rightarrow> int list \<Rightarrow> error + real list" where
  "variances_of preds idx =
     map_err (\<lambda>i. case items_at preds i of Inl e \<Rightarrow> Inl e | Inr vs \<Rightarrow> Inr (np_var vs)) idx"

definition estimate_variance :: "('g, 'f) lib \<Rightarrow> 'f tree \<Rightarrow> dataframe \<Rightarrow> series \<Rightarrow> dataframe \<Rightarrow>
    'g \<Rightarrow> error + (real \<times> 'f tree \<times> 'g)" where
  "estimate_variance L model x_train y_train x_valid g =
     (if len_df x_train \<noteq> len_series y_train then Inl AssertionError
      else
        let iters = 100;
            all_indices = map int [0 ..< len_df x_train];
            x_train1 = array_df x_train;
            y_train1 = x_train1
        in case bootstrap L iters all_indices x_train1 y_train1 x_valid model [] g of
             Inl e \<Rightarrow> Inl e
           | Inr (preds, model', g') \<Rightarrow>
             (case variances_of preds (map int [0 ..< len_df x_valid]) of
                Inl e \<Rightarrow> Inl e
              | Inr variances \<Rightarrow> Inr (np_mean variances, model', g')))"

subsection \<open>Ranges, \<open>argmax\<close> and \<open>argmin\<close>\<close>

text \<open>
  \<open>range(lo, hi, step)\<close> for a positive step, as a list. (The notebook's steps are
  \<open>1\<close> and \<open>max(..., 1)\<close>; a step below \<open>1\<close> is read as the empty range.)
\<close>

function py_range :: "int \<Rightarrow> int \<Rightarrow> int \<Rightarrow> int list" where
  "py_range lo hi step =
     (if step \<le> 0 \<or> hi \<le> lo then [] else lo # py_range (lo + step) hi step)"
  by pat_completeness auto
termination
  by (relation "measure (\<lambda>(lo, hi, step). nat (hi - lo))") auto

text \<open>
  The position of the first entry that no other entry beats; \<open>better a b\<close> says that
  \<open>a\<close> beats \<open>b\<close>. \<open>np.argmax\<close> and \<open>np.argmin\<close> answer the first position of the
  maximum and of the minimum, and raise \<open>ValueError\<close> on an empty sequence.
\<close>

fun first_best :: "(real \<Rightarrow> real \<Rightarrow> bool) \<Rightarrow> real list \<Rightarrow> nat" where
  "first_best better [] = 0"
| "first_best better [x] = 0"
| "first_best better (x # y # ys) =
     (let j = first_best better (y # ys)
      in if better ((y # ys) ! j) x then Suc j else 0)"

definition np_argmax :: "real list \<Rightarrow> error + int" where
  "np_argmax xs = (if xs = [] then Inl ValueError else Inr (int (first_best (\<lambda>a b. b < a) xs)))"

definition np_argmin :: "real list \<Rightarrow> error + int" where
  "np_argmin xs = (if xs = [] then Inl ValueError else Inr (int (first_best (\<lambda>a b. a < b) xs)))"

subsection \<open>Algorithm 1: the highest validation score\<close>

text \<open>The loop \<open>for max_depth in range(1,1000)\<close>, over the depths still to visit.\<close>

fun sweep1 :: "('g, 'f) lib \<Rightarrow> dataframe \<Rightarrow> series \<Rightarrow> dataframe \<Rightarrow> series \<Rightarrow>
    int list \<Rightarrow> int list \<Rightarrow> real list \<Rightarrow> 'g \<Rightarrow> error + (int list \<times> real list \<times> 'g)" where
  "sweep1 L x_train y_train x_valid y_valid [] depths valid_scores g =
     Inr (depths, valid_scores, g)"
| "sweep1 L x_train y_train x_valid y_valid (max_depth # rest) depths valid_scores g =
     (let tree = DecisionTreeRegressor max_depth None
      in case fit L tree (array_df x_train) (array_series y_train) g of
           Inl e \<Rightarrow> Inl e
         | Inr (tree1, g1) \<Rightarrow>
           (case score L tree1 (array_df x_valid) (array_series y_valid) of
              Inl e \<Rightarrow> Inl e
            | Inr s \<Rightarrow>
                sweep1 L x_train y_train x_valid y_valid rest
                  (depths @ [max_depth]) (valid_scores @ [s]) g1))"

text \<open>What the cell leaves behind and prints.\<close>

record 'f selection =
  sel_depth :: int
  sel_value :: real
  sel_tree :: "'f tree"
  sel_test_score :: real

definition algorithm1 :: "('g, 'f) lib \<Rightarrow> dataframe \<Rightarrow> series \<Rightarrow> dataframe \<Rightarrow> series \<Rightarrow>
    dataframe \<Rightarrow> series \<Rightarrow> 'g \<Rightarrow> error + ('f selection \<times> 'g)" where
  "algorithm1 L x_train y_train x_valid y_valid x_test y_test g =
     (case sweep1 L x_train y_train x_valid y_valid (py_range 1 1000 1) [] [] g of
        Inl e \<Rightarrow> Inl e
      | Inr (depths, valid_scores, g1) \<Rightarrow>
        (case np_argmax valid_scores of
           Inl e \<Rightarrow> Inl e
         | Inr best_index \<Rightarrow>
           (case py_index depths best_index of
              Inl e \<Rightarrow> Inl e
            | Inr best_depth \<Rightarrow>
              (case py_index valid_scores best_index of
                 Inl e \<Rightarrow> Inl e
               | Inr best_score \<Rightarrow>
                 (let tree_using_valid_score = DecisionTreeRegressor best_depth None
                  in case fit L tree_using_valid_score
                            (array_df x_train) (array_series y_train) g1 of
                       Inl e \<Rightarrow> Inl e
                     | Inr (tree1, g2) \<Rightarrow>
                       (case score L tree1 (array_df x_test) (array_series y_test) of
                          Inl e \<Rightarrow> Inl e
                        | Inr t \<Rightarrow>
                            Inr (\<lparr>sel_depth = best_depth, sel_value = best_score,
                                  sel_tree = tree1, sel_test_score = t\<rparr>, g2)))))))"

subsection \<open>Algorithm 2: the lowest squared bias plus variance\<close>

text \<open>The loop \<open>for max_depth in range(lower,upper+1,...)\<close>, over the depths still to visit.\<close>

fun sweep2 :: "('g, 'f) lib \<Rightarrow> dataframe \<Rightarrow> series \<Rightarrow> dataframe \<Rightarrow> series \<Rightarrow>
    int list \<Rightarrow> int list \<Rightarrow> real list \<Rightarrow> 'g \<Rightarrow> error + (int list \<times> real list \<times> 'g)" where
  "sweep2 L x_train y_train x_valid y_valid [] depths errors g = Inr (depths, errors, g)"
| "sweep2 L x_train y_train x_valid y_valid (max_depth # rest) depths errors g =
     (let tree = DecisionTreeRegressor max_depth (Some 2)
      in case fit L tree (array_df x_train) (array_series y_train) g of
           Inl e \<Rightarrow> Inl e
         | Inr (tree1, g1) \<Rightarrow>
           (case predict L tree1 (array_df x_valid) of
              Inl e \<Rightarrow> Inl e
            | Inr valid_pred \<Rightarrow>
              (let bias_squared = mean_squared_error L valid_pred (array_series y_valid)
               in case estimate_variance L tree1 x_train y_train x_valid g1 of
                    Inl e \<Rightarrow> Inl e
                  | Inr (variance, tree2, g2) \<Rightarrow>
                      sweep2 L x_train y_train x_valid y_valid rest
                        (depths @ [max_depth]) (errors @ [bias_squared + variance]) g2)))"

text \<open>
  The loop \<open>while True\<close>: \<open>lower\<close>, \<open>upper\<close> and the generator are its state; it
  answers \<open>best_depth\<close> and \<open>lowest_error\<close> of its last round (every round assigns
  them, so their first values \<open>-1\<close> and \<open>1e20\<close> are never read). \<open>None\<close> stands
  for a loop that never ends.
\<close>

partial_function (option) refine :: "('g, 'f) lib \<Rightarrow> dataframe \<Rightarrow> series \<Rightarrow> dataframe \<Rightarrow> series \<Rightarrow>
    int \<Rightarrow> int \<Rightarrow> 'g \<Rightarrow> (error + (int \<times> real \<times> 'g)) option" where
  "refine L x_train y_train x_valid y_valid lower upper g =
     (case sweep2 L x_train y_train x_valid y_valid
             (py_range lower (upper + 1) (max ((upper - lower) div 10) 1)) [] [] g of
        Inl e \<Rightarrow> Some (Inl e)
      | Inr (depths, errors, g1) \<Rightarrow>
        (case np_argmin errors of
           Inl e \<Rightarrow> Some (Inl e)
         | Inr best_index \<Rightarrow>
           (case py_index depths best_index of
              Inl e \<Rightarrow> Some (Inl e)
            | Inr best_depth \<Rightarrow>
              (case py_index errors best_index of
                 Inl e \<Rightarrow> Some (Inl e)
               | Inr lowest_error \<Rightarrow>
                 (case py_index depths (max 0 (best_index - 1)) of
                    Inl e \<Rightarrow> Some (Inl e)
                  | Inr new_lower \<Rightarrow>
                    (case py_index depths (min (int (length depths) - 1) (best_index + 1)) of
                       Inl e \<Rightarrow> Some (Inl e)
                     | Inr new_upper \<Rightarrow>
                         if new_lower = lower \<and> new_upper = upper
                         then Some (Inr (best_depth, lowest_error, g1))
                         else refine L x_train y_train x_valid y_valid
                                new_lower new_upper g1))))))"

definition algorithm2 :: "('g, 'f) lib \<Rightarrow> dataframe \<Rightarrow> series \<Rightarrow> dataframe \<Rightarrow> series \<Rightarrow>
    dataframe \<Rightarrow> series \<Rightarrow> 'g \<Rightarrow> (error + ('f selection \<times> 'g)) option" where
  "algorithm2 L x_train y_train x_valid y_valid x_test y_test g =
     (let lower = 1; upper = 1000
      in case refine L x_train y_train x_valid y_valid lower upper g of
           None \<Rightarrow> None
         | Some (Inl e) \<Rightarrow> Some (Inl e)
         | Some (Inr (best_depth, lowest_error, g1)) \<Rightarrow>
           (let tree_using_bias_variance = DecisionTreeRegressor best_depth None
            in case fit L tree_using_bias_variance
                      (array_df x_train) (array_series y_train) g1 of
                 Inl e \<Rightarrow> Some (Inl e)
               | Inr (tree1, g2) \<Rightarrow>
                 (case score L tree1 (array_df x_test) (array_series y_test) of
                    Inl e \<Rightarrow> Some (Inl e)
                  | Inr t \<Rightarrow>
                      Some (Inr (\<lparr>sel_depth = best_depth, sel_value = lowest_error,
                                  sel_tree = tree1, sel_test_score = t\<rparr>, g2)))))"

subsection \<open>\<open>gen_data\<close>\<close>

text \<open>\<open>str(i)\<close> for \<open>i \<ge> 0\<close>: the decimal digits.\<close>

definition digit_char :: "nat \<Rightarrow> char" where
  "digit_char d = char_of (48 + d)"

fun str_nat :: "nat \<Rightarrow> string" where
  "str_nat n = (if n < 10 then [digit_char n] else str_nat (n div 10) @ [digit_char (n mod 10)])"

declare str_nat.simps [simp del]

text \<open>
  \<open>pd.DataFrame(data, columns=...)\<close>: every row has one entry for each column, and
  the index labels are \<open>0, 1, ...\<close>.
\<close>

definition DataFrame :: "real list list \<Rightarrow> string list \<Rightarrow> error + dataframe" where
  "DataFrame data columns =
     (if list_all (\<lambda>row. length row = length columns) data
      then Inr \<lparr>df_index = [0 ..< length data], df_columns = columns, df_rows = data\<rparr>
      else Inl ValueError)"

text \<open>The position of a column label; \<open>KeyError\<close> when there is no such column.\<close>

fun col_pos :: "string list \<Rightarrow> string \<Rightarrow> error + int" where
  "col_pos [] c = Inl KeyError"
| "col_pos (d # ds) c =
     (if d = c then Inr 0
      else case col_pos ds c of Inl e \<Rightarrow> Inl e | Inr p \<Rightarrow> Inr (p + 1))"

text \<open>\<open>df[names]\<close> with a list of column labels: a frame of these columns.\<close>

definition df_getitem_list :: "dataframe \<Rightarrow> string list \<Rightarrow> error + dataframe" where
  "df_getitem_list df names =
     (case map_err (col_pos (df_columns df)) names of
        Inl e \<Rightarrow> Inl e
      | Inr ps \<Rightarrow>
        (case map_err (\<lambda>row. map_err (py_index row) ps) (df_rows df) of
           Inl e \<Rightarrow> Inl e
         | Inr rows \<Rightarrow> Inr \<lparr>df_index = df_index df, df_columns = names, df_rows = rows\<rparr>))"

text \<open>\<open>df[name]\<close> with one column label: the series of this column.\<close>

definition df_getitem :: "dataframe \<Rightarrow> string \<Rightarrow> error + series" where
  "df_getitem df name =
     (case col_pos (df_columns df) name of
        Inl e \<Rightarrow> Inl e
      | Inr p \<Rightarrow>
        (case map_err (\<lambda>row. py_index row p) (df_rows df) of
           Inl e \<Rightarrow> Inl e
         | Inr vs \<Rightarrow> Inr \<lparr>s_index = df_index df, s_values = vs\<rparr>))"

text \<open>The rows (entries) at a list of positions, with their index labels.\<close>

definition df_iloc :: "dataframe \<Rightarrow> nat list \<Rightarrow> error + dataframe" where
  "df_iloc df ps =
     (case map_err (py_index (df_index df)) (map int ps) of
        Inl e \<Rightarrow> Inl e
      | Inr idx \<Rightarrow>
        (case map_err (py_index (df_rows df)) (map int ps) of
           Inl e \<Rightarrow> Inl e
         | Inr rows \<Rightarrow> Inr \<lparr>df_index = idx, df_columns = df_columns df, df_rows = rows\<rparr>))"

definition s_iloc :: "series \<Rightarrow> nat list \<Rightarrow> error + series" where
  "s_iloc s ps =
     (case map_err (py_index (s_index s)) (map int ps) of
        Inl e \<Rightarrow> Inl e
      | Inr idx \<Rightarrow>
        (case map_err (py_index (s_values s)) (map int ps) of
           Inl e \<Rightarrow> Inl e
         | Inr vs \<Rightarrow> Inr \<lparr>s_index = idx, s_values = vs\<rparr>))"

text \<open>
  A call of \<open>train_test_split\<close> as the world sees it: the number of rows it is given,
  \<open>test_size\<close> and \<open>random_state\<close>. The calls made so far are a state that every
  call extends by itself.
\<close>

type_synonym split_call = "nat \<times> real \<times> int"

text \<open>
  \<open>train_test_split(x, y, test_size=t, random_state=seed)\<close>: scikit-learn chooses the
  positions of the train rows and of the test rows (\<open>split_positions\<close>, from the number
  of rows, \<open>t\<close> and the seed alone) and answers these rows of \<open>x\<close> and of \<open>y\<close>.
\<close>

definition train_test_split :: "('g, 'f) lib \<Rightarrow> dataframe \<Rightarrow> series \<Rightarrow> real \<Rightarrow> int \<Rightarrow>
    split_call list \<Rightarrow> error + ((dataframe \<times> dataframe \<times> series \<times> series) \<times> split_call list)" where
  "train_test_split L x y test_size seed calls =
     (if len_df x \<noteq> len_series y then Inl ValueError
      else
        let (train, test) = split_positions L (len_df x) test_size seed
        in case df_iloc x train of
             Inl e \<Rightarrow> Inl e
           | Inr x_tr \<Rightarrow>
             (case df_iloc x test of
                Inl e \<Rightarrow> Inl e
              | Inr x_te \<Rightarrow>
                (case s_iloc y train of
                   Inl e \<Rightarrow> Inl e
                 | Inr y_tr \<Rightarrow>
                   (case s_iloc y test of
                      Inl e \<Rightarrow> Inl e
                    | Inr y_te \<Rightarrow>
                        Inr ((x_tr, x_te, y_tr, y_te),
                             calls @ [(len_df x, test_size, seed)])))))"

text \<open>
  \<open>np.random.seed(seed)\<close>: the generator the seed stands for; \<open>ValueError\<close> when the
  seed is not between \<open>0\<close> and \<open>2**32 - 1\<close>.
\<close>

definition np_seed :: "('g, 'f) lib \<Rightarrow> int \<Rightarrow> error + 'g" where
  "np_seed L seed =
     (if 0 \<le> seed \<and> seed < 2 ^ 32 then Inr (np_random_seed L seed) else Inl ValueError)"

text \<open>\<open>[np.random.random() for i in range(n)]\<close>.\<close>

fun draw_list :: "('g, 'f) lib \<Rightarrow> nat \<Rightarrow> 'g \<Rightarrow> real list \<times> 'g" where
  "draw_list L 0 g = ([], g)"
| "draw_list L (Suc n) g =
     (let (v, g1) = np_random_random L g;
          (vs, g2) = draw_list L n g1
      in (v # vs, g2))"

text \<open>The body of \<open>for i in range(500)\<close>: one row, its target appended.\<close>

definition gen_row :: "('g, 'f) lib \<Rightarrow> nat \<Rightarrow> 'g \<Rightarrow> real list \<times> 'g" where
  "gen_row L num_features g =
     (let (row, g1) = draw_list L num_features g;
          (u, g2) = np_random_random L g1;
          y = sum_list (take 3 row) + u\<^sup>2
      in (row @ [y], g2))"

fun gen_rows :: "('g, 'f) lib \<Rightarrow> nat \<Rightarrow> nat \<Rightarrow> real list list \<Rightarrow> 'g \<Rightarrow> real list list \<times> 'g" where
  "gen_rows L 0 num_features data g = (data, g)"
| "gen_rows L (Suc n) num_features data g =
     (let (row, g1) = gen_row L num_features g
      in gen_rows L n num_features (data @ [row]) g1)"

text \<open>
  The first part of \<open>gen_data\<close>, up to \<open>full_df\<close>: the names of the feature columns,
  the frame, and the generator after the draws.
\<close>

definition gen_full_df :: "('g, 'f) lib \<Rightarrow> int \<Rightarrow> error + (string list \<times> dataframe \<times> 'g)" where
  "gen_full_df L seed =
     (case np_seed L seed of
        Inl e \<Rightarrow> Inl e
      | Inr g0 \<Rightarrow>
        (let num_features = 100;
             (data, g1) = gen_rows L 500 num_features [] g0;
             features = map (\<lambda>i. ''x'' @ str_nat i) [0 ..< num_features];
             all_columns = features @ [''y'']
         in case DataFrame data all_columns of
              Inl e \<Rightarrow> Inl e
            | Inr full_df \<Rightarrow> Inr (features, full_df, g1)))"

text \<open>
  \<open>gen_data(seed)\<close>. The generator \<open>g\<close> it is called in is the one \<open>np.random.seed\<close>
  replaces. It answers \<open>x_train, x_valid, x_test, y_train, y_valid, y_test\<close>, and
  leaves behind the generator as it is after the draws and the calls of
  \<open>train_test_split\<close> it has made.
\<close>

definition gen_data :: "('g, 'f) lib \<Rightarrow> int \<Rightarrow> 'g \<Rightarrow>
    error + ((dataframe \<times> dataframe \<times> dataframe \<times> series \<times> series \<times> series)
             \<times> 'g \<times> split_call list)" where
  "gen_data L seed g =
     (case gen_full_df L seed of
        Inl e \<Rightarrow> Inl e
      | Inr (feature_names, full_df, g1) \<Rightarrow>
        (case df_getitem_list full_df feature_names of
           Inl e \<Rightarrow> Inl e
         | Inr features \<Rightarrow>
           (case df_getitem full_df ''y'' of
              Inl e \<Rightarrow> Inl e
            | Inr goal \<Rightarrow>
              (case train_test_split L features goal (1 / 2) seed [] of
                 Inl e \<Rightarrow> Inl e
               | Inr ((x_not_test, x_test, y_not_test, y_test), calls1) \<Rightarrow>
                 (case train_test_split L x_not_test y_not_test (1 / 5) seed calls1 of
                    Inl e \<Rightarrow> Inl e
                  | Inr ((x_train, x_valid, y_train, y_valid), calls2) \<Rightarrow>
                      Inr ((x_train, x_valid, x_test, y_train, y_valid, y_test),
                           g1, calls2))))))"

text \<open>The calls of \<open>train_test_split\<close> that a run of \<open>gen_data\<close> has made.\<close>

definition split_calls :: "error + ('a \<times> 'g \<times> split_call list) \<Rightarrow> split_call list" where
  "split_calls res = (case res of Inl e \<Rightarrow> [] | Inr (parts, g, calls) \<Rightarrow> calls)"

subsection \<open>The two algorithms, one after the other\<close>

text \<open>
  The cells of Algorithm 1 and of Algorithm 2 in the notebook's order: the second
  starts with the generator the first leaves.
\<close>

definition run_algorithms :: "('g, 'f) lib \<Rightarrow> dataframe \<Rightarrow> series \<Rightarrow> dataframe \<Rightarrow> series \<Rightarrow>
    dataframe \<Rightarrow> series \<Rightarrow> 'g \<Rightarrow> (error + ('f selection \<times> 'f selection \<times> 'g)) option" where
  "run_algorithms L x_train y_train x_valid y_valid x_test y_test g =
     (case algorithm1 L x_train y_train x_valid y_valid x_test y_test g of
        Inl e \<Rightarrow> Some (Inl e)
      | Inr (s1, g1) \<Rightarrow>
        (case algorithm2 L x_train y_train x_valid y_valid x_test y_test g1 of
           None \<Rightarrow> None
         | Some (Inl e) \<Rightarrow> Some (Inl e)
         | Some (Inr (s2, g2)) \<Rightarrow> Some (Inr (s1, s2, g2))))"

text \<open>
  What a run selects: everything it answers but the two test scores it prints at the
  end; and the two selected depths alone.
\<close>

definition forget_test_score :: "'f selection \<Rightarrow> 'f selection" where
  "forget_test_score s = s\<lparr>sel_test_score := 0\<rparr>"

definition selected :: "(error + ('f selection \<times> 'f selection \<times> 'g)) option \<Rightarrow>
    (error + ('f selection \<times> 'f selection \<times> 'g)) option" where
  "selected res =
     map_option (map_sum id (\<lambda>(s1, s2, g). (forget_test_score s1, forget_test_score s2, g))) res"

definition selected_depths :: "(error + ('f selection \<times> 'f selection \<times> 'g)) option \<Rightarrow>
    (error + (int \<times> int)) option" where
  "selected_depths res =
     map_option (map_sum id (\<lambda>(s1, s2, g). (sel_depth s1, sel_depth s2))) res"

subsection \<open>Naming the draws and the contract of the split\<close>

text \<open>The generator after \<open>k\<close> calls of \<open>np.random.random\<close>, and the number call \<open>k\<close> answers.\<close>

fun rng_after :: "('g, 'f) lib \<Rightarrow> nat \<Rightarrow> 'g \<Rightarrow> 'g" where
  "rng_after L 0 g = g"
| "rng_after L (Suc k) g = rng_after L k (snd (np_random_random L g))"

definition draw_no :: "('g, 'f) lib \<Rightarrow> 'g \<Rightarrow> nat \<Rightarrow> real" where
  "draw_no L g k = fst (np_random_random L (rng_after L k g))"

text \<open>
  What scikit-learn promises of a split of \<open>n\<close> rows: the train and the test positions
  are distinct positions below \<open>n\<close>, and every position below \<open>n\<close> is one of them.
\<close>

definition split_contract :: "(nat \<Rightarrow> real \<Rightarrow> int \<Rightarrow> nat list \<times> nat list) \<Rightarrow> bool" where
  "split_contract sp =
     (\<forall>n t seed. distinct (fst (sp n t seed) @ snd (sp n t seed))
                 \<and> set (fst (sp n t seed) @ snd (sp n t seed)) = {..<n})"

text \<open>
  The generator before each \<open>fit\<close> of a sweep of Algorithm 1 over the depths \<open>ds\<close>,
  and after the last one.
\<close>

fun fit_gens :: "('g, 'f) lib \<Rightarrow> ndarray \<Rightarrow> ndarray \<Rightarrow> int list \<Rightarrow> 'g \<Rightarrow> 'g list" where
  "fit_gens L x y [] g = [g]"
| "fit_gens L x y (d # ds) g = g # fit_gens L x y ds (snd (tree_fit L d None x y g))"

subsection \<open>Naming the dataset\<close>

text \<open>The row that \<open>gen_row\<close> draws from the generator \<open>g\<close>.\<close>

definition row_of :: "('g, 'f) lib \<Rightarrow> nat \<Rightarrow> 'g \<Rightarrow> real list" where
  "row_of L nf g = map (draw_no L g) [0 ..< nf]
      @ [sum_list (take 3 (map (draw_no L g) [0 ..< nf])) + (draw_no L g nf)\<^sup>2]"

text \<open>The number a string of decimal digits stands for.\<close>

fun dec_val :: "string \<Rightarrow> nat" where
  "dec_val s = foldl (\<lambda>a c. 10 * a + (of_char c - 48)) 0 s"

text \<open>
  The labels of the feature columns, and the rows of \<open>full_df\<close> for a seed: row \<open>r\<close>
  is drawn from the seeded generator after \<open>101 * r\<close> draws.
\<close>

definition feature_names :: "string list" where
  "feature_names = map (\<lambda>i. ''x'' @ str_nat i) [0 ..< 100]"

definition dataset :: "('g, 'f) lib \<Rightarrow> int \<Rightarrow> real list list" where
  "dataset L seed =
     map (\<lambda>r. row_of L 100 (rng_after L (r * 101) (np_random_seed L seed))) [0 ..< 500]"

subsection \<open>A small library to run the notebook on\<close>

text \<open>
  A learner that memorises its training data and predicts the mean of the labels it
  was given; a generator that counts its calls; a choice that takes the first entries;
  a split that cuts the rows in two halves.
\<close>

fun nd_flat :: "ndarray \<Rightarrow> real list" where
  "nd_flat (Arr1 vs) = vs"
| "nd_flat (Arr2 rs) = concat rs"

definition memo_lib :: "(nat, ndarray \<times> ndarray) lib" where
  "memo_lib = \<lparr>
     np_random_seed = (\<lambda>seed. nat \<bar>seed\<bar>),
     np_random_random = (\<lambda>g. (1 / (real g + 2), g + 1)),
     np_random_choice = (\<lambda>a k g. (take k a, g + 1)),
     split_positions = (\<lambda>n t seed. (drop (n div 2) [0 ..< n], take (n div 2) [0 ..< n])),
     tree_fit = (\<lambda>d r x y g. ((x, y), g)),
     tree_predict = (\<lambda>f v. Arr1 (replicate (nd_len v) (np_mean (nd_flat (snd f))))),
     tree_score = (\<lambda>f x y. 0),
     mean_squared_error = (\<lambda>p y. 0)
   \<rparr>"

definition toy_x_train :: dataframe where
  "toy_x_train = \<lparr>df_index = [0, 1], df_columns = [''x0''], df_rows = [[1], [2]]\<rparr>"

definition toy_y_train :: series where
  "toy_y_train = \<lparr>s_index = [0, 1], s_values = [5, 7]\<rparr>"

definition toy_x_valid :: dataframe where
  "toy_x_valid = \<lparr>df_index = [2], df_columns = [''x0''], df_rows = [[3]]\<rparr>"

definition toy_y_valid :: series where
  "toy_y_valid = \<lparr>s_index = [2], s_values = [9]\<rparr>"

definition no_labels :: series where
  "no_labels = \<lparr>s_index = [], s_values = []\<rparr>"

text \<open>
  The same library with a learner that remembers its \<open>max_depth\<close> and scores, on
  validation data \<open>x, y\<close>, minus the square of the distance between its depth and the
  mean of \<open>y\<close>.
\<close>

definition depth_lib :: "(nat, ndarray \<times> ndarray) lib" where
  "depth_lib = memo_lib\<lparr>
     tree_fit := (\<lambda>d r x y g. ((Arr1 [of_int d], y), g + 1)),
     tree_score := (\<lambda>f x y. - (np_mean (nd_flat (fst f)) - np_mean (nd_flat y))\<^sup>2)\<rparr>"

text \<open>A tree of depth \<open>1\<close> after \<open>fit\<close> on the toy train set, as Algorithm 2 hands it over.\<close>

definition toy_tree :: "(ndarray \<times> ndarray) tree" where
  "toy_tree = \<lparr>hp_max_depth = 1, hp_random_state = Some 2,
               fitted = Some (Arr2 [[1], [2]], Arr1 [5, 7])\<rparr>"

text \<open>A train set of one row: its resamples have no row at all.\<close>

definition one_x_train :: dataframe where
  "one_x_train = \<lparr>df_index = [0], df_columns = [''x0''], df_rows = [[1]]\<rparr>"

definition one_y_train :: series where
  "one_y_train = \<lparr>s_index = [0], s_values = [5]\<rparr>"

definition one_tree :: "(ndarray \<times> ndarray) tree" where
  "one_tree = \<lparr>hp_max_depth = 1, hp_random_state = Some 2,
               fitted = Some (Arr2 [[1]], Arr1 [5])\<rparr>"

section \<open>Properties\<close>

declare py_range.simps [simp del]

subsection \<open>Fitting, then predicting or scoring\<close>

lemma memo_lib_simps:
  "np_random_choice memo_lib a k g = (take k a, g + 1)"
  "tree_fit memo_lib d r x y g = ((x, y), g)"
  "tree_predict memo_lib f v = Arr1 (replicate (nd_len v) (np_mean (nd_flat (snd f))))"
  "tree_score memo_lib f x y = 0"
  "mean_squared_error memo_lib p y = 0"
  by (simp_all add: memo_lib_def)

lemma fit_ok:
  "nd_len x \<noteq> 0 \<Longrightarrow> nd_len x = nd_len y \<Longrightarrow>
   fit L model x y g
     = Inr (model\<lparr>fitted := Some (fst (tree_fit L (hp_max_depth model) (hp_random_state model)
                                          x y g))\<rparr>,
            snd (tree_fit L (hp_max_depth model) (hp_random_state model) x y g))"
  by (simp add: fit_def split: prod.splits)

lemma fit_Inr:
  assumes "fit L model x y g = Inr (model1, g1)"
  shows "nd_len x \<noteq> 0" and "nd_len x = nd_len y"
    and "model1 = model\<lparr>fitted := Some (fst (tree_fit L (hp_max_depth model)
                                               (hp_random_state model) x y g))\<rparr>"
    and "g1 = snd (tree_fit L (hp_max_depth model) (hp_random_state model) x y g)"
  using assms by (auto simp: fit_def split: if_splits prod.splits)

lemma fit_Inl: "fit L model x y g = Inl e \<Longrightarrow> e = ValueError"
  by (auto simp: fit_def split: if_splits prod.splits)

lemma fit_mismatch: "nd_len x \<noteq> nd_len y \<Longrightarrow> fit L model x y g = Inl ValueError"
  by (simp add: fit_def)

lemma predict_fit:
  "fit L model x y g = Inr (model1, g1) \<Longrightarrow>
   predict L model1 v =
     Inr (tree_predict L (fst (tree_fit L (hp_max_depth model) (hp_random_state model) x y g)) v)"
  by (auto simp: fit_def predict_def split: if_splits prod.splits)

lemma score_fit:
  "fit L model x y g = Inr (model1, g1) \<Longrightarrow>
   score L model1 v w =
     Inr (tree_score L (fst (tree_fit L (hp_max_depth model) (hp_random_state model) x y g)) v w)"
  by (auto simp: fit_def score_def split: if_splits prod.splits)

subsection \<open>Where an \<open>AssertionError\<close> can come from\<close>

lemma py_index_not_assert [simp]: "(py_index xs i = Inl AssertionError) = False"
  by (simp add: py_index_def Let_def)

lemma map_err_Inl: "map_err f xs = Inl e \<Longrightarrow> \<exists>x \<in> set xs. f x = Inl e"
  by (induction xs) (auto split: sum.splits)

lemma py_take_not_assert [simp]: "(py_take xs idx = Inl AssertionError) = False"
  unfolding py_take_def using map_err_Inl [of "py_index xs" idx AssertionError] by auto

lemma nd_take_not_assert [simp]: "(nd_take a idx = Inl AssertionError) = False"
  by (cases a) (auto split: sum.splits)

lemma fit_not_assert [simp]: "(fit L model x y g = Inl AssertionError) = False"
  using fit_Inl [of L model x y g AssertionError] by auto

lemma bootstrap_not_assert [simp]:
  "(bootstrap L n idx x y xv model preds g = Inl AssertionError) = False"
proof (induction n arbitrary: model preds g)
  case 0
  then show ?case by simp
next
  case (Suc n)
  show ?case
    using Suc.IH
    by (auto simp: Let_def predict_fit split: prod.splits sum.splits)
qed

lemma nd_item_not_assert [simp]: "(nd_item a i = Inl AssertionError) = False"
  by (cases a) (auto split: sum.splits)

lemma items_at_not_assert [simp]: "(items_at preds i = Inl AssertionError) = False"
  using map_err_Inl [of "\<lambda>pred. nd_item pred i" preds AssertionError]
  by (auto simp: items_at_def split: sum.splits)

lemma variances_of_not_assert [simp]: "(variances_of preds idx = Inl AssertionError) = False"
proof -
  have "(case items_at preds i of Inl e \<Rightarrow> Inl e | Inr vs \<Rightarrow> Inr (np_var vs))
          \<noteq> Inl AssertionError" for i
    by (cases "items_at preds i") auto
  then show ?thesis
    unfolding variances_of_def
    using map_err_Inl [of "\<lambda>i. case items_at preds i of Inl e \<Rightarrow> Inl e
                                | Inr vs \<Rightarrow> Inr (np_var vs)" idx AssertionError]
    by blast
qed

lemma estimate_variance_assert:
  "estimate_variance L model x_train y_train x_valid g = Inl AssertionError
     \<longleftrightarrow> len_df x_train \<noteq> len_series y_train"
  by (auto simp: estimate_variance_def Let_def split: sum.splits prod.splits)

lemma py_range_first: "py_range 1 1001 99 = 1 # py_range 100 1001 99"
  by (subst py_range.simps) simp

lemma sweep2_raises:
  "fit L (DecisionTreeRegressor d (Some 2)) (array_df x_train) (array_series y_train) g
     = Inr (tree1, g1) \<Longrightarrow>
   estimate_variance L tree1 x_train y_train x_valid g1 = Inl e \<Longrightarrow>
   sweep2 L x_train y_train x_valid y_valid (d # rest) depths errors g = Inl e"
  by (simp add: predict_fit)

lemma refine_raises:
  "sweep2 L x_train y_train x_valid y_valid
     (py_range lower (upper + 1) (max ((upper - lower) div 10) 1)) [] [] g = Inl e \<Longrightarrow>
   refine L x_train y_train x_valid y_valid lower upper g = Some (Inl e)"
  by (subst refine.simps) simp

lemma algorithm2_raises:
  "refine L x_train y_train x_valid y_valid 1 1000 g = Some (Inl e) \<Longrightarrow>
   algorithm2 L x_train y_train x_valid y_valid x_test y_test g = Some (Inl e)"
  by (simp add: algorithm2_def)

text \<open>
  In Algorithm 2 itself the assertion is never what ends the cell on train data of
  two lengths: \<open>tree.fit(x_train,y_train)\<close> comes before the call of
  \<open>estimate_variance\<close> and raises \<open>ValueError\<close>.
\<close>

lemma algorithm2_mismatch:
  assumes "len_df x_train \<noteq> len_series y_train"
  shows "algorithm2 L x_train y_train x_valid y_valid x_test y_test g = Some (Inl ValueError)"
proof -
  have "nd_len (array_df x_train) \<noteq> nd_len (array_series y_train)"
    using assms by (simp add: array_df_def array_series_def len_df_def len_series_def)
  then have "sweep2 L x_train y_train x_valid y_valid (1 # py_range 100 1001 99) [] [] g
      = Inl ValueError"
    by (simp add: fit_mismatch)
  then have "sweep2 L x_train y_train x_valid y_valid
      (py_range 1 (1000 + 1) (max ((1000 - 1) div 10) 1)) [] [] g = Inl ValueError"
    using py_range_first by simp
  then show ?thesis by (intro algorithm2_raises refine_raises)
qed

lemma one_row_estimate_variance:
  "estimate_variance memo_lib model one_x_train one_y_train x_valid g = Inl ValueError"
proof -
  have idx: "map int [0 ..< 1] = [0]" by simp
  have n: "(100::nat) = Suc 99" by simp
  have "bootstrap memo_lib (Suc k) [0] (Arr2 [[1]]) (Arr2 [[1]]) x_valid model [] g
      = Inl ValueError" for k
    by (simp add: memo_lib_simps py_take_def fit_def)
  then have "bootstrap memo_lib 100 [0] (Arr2 [[1]]) (Arr2 [[1]]) x_valid model [] g
      = Inl ValueError"
    by (simp only: n)
  then show ?thesis
    by (simp add: estimate_variance_def len_df_def len_series_def one_x_train_def
        one_y_train_def array_df_def idx)
qed

text \<open>
  C8. \<open>estimate_variance\<close> raises \<open>AssertionError\<close> exactly when \<open>x_train\<close> and
  \<open>y_train\<close> differ in length at entry. Nothing catches what it raises: the error is
  what the call answers, and an error of a call of \<open>estimate_variance\<close> ends the
  sweep of Algorithm 2 that made the call, an error of the sweep ends the \<open>while\<close>
  loop, and an error of the loop ends the cell.
\<close>

theorem estimate_variance_assertion:
  "(estimate_variance L model x_train y_train x_valid g = Inl AssertionError
      \<longleftrightarrow> len_df x_train \<noteq> len_series y_train)
   \<and> (fit L (DecisionTreeRegressor d (Some 2)) (array_df x_train) (array_series y_train) g
         = Inr (tree1, g1)
       \<and> estimate_variance L tree1 x_train y_train x_valid g1 = Inl e
       \<longrightarrow> sweep2 L x_train y_train x_valid y_valid (d # rest) depths errors g = Inl e)
   \<and> (sweep2 L x_train y_train x_valid y_valid
         (py_range lower (upper + 1) (max ((upper - lower) div 10) 1)) [] [] g = Inl e
       \<longrightarrow> refine L x_train y_train x_valid y_valid lower upper g = Some (Inl e))
   \<and> (refine L x_train y_train x_valid y_valid 1 1000 g = Some (Inl e)
       \<longrightarrow> algorithm2 L x_train y_train x_valid y_valid x_test y_test g = Some (Inl e))"
  using sweep2_raises [of L d x_train y_train g tree1 g1 x_valid e y_valid rest depths errors]
    refine_raises [of L x_train y_train x_valid y_valid lower upper g e]
    algorithm2_raises [of L x_train y_train x_valid y_valid g e x_test y_test]
  by (simp add: estimate_variance_assert)

theorem estimate_variance_assertion_witness:
  "len_df toy_x_train \<noteq> len_series no_labels
   \<and> estimate_variance memo_lib toy_tree toy_x_train no_labels toy_x_valid 0
        = Inl AssertionError
   \<and> fit memo_lib (DecisionTreeRegressor 1 (Some 2)) (array_df one_x_train)
        (array_series one_y_train) 0 = Inr (one_tree, 0)
   \<and> estimate_variance memo_lib one_tree one_x_train one_y_train toy_x_valid 0
        = Inl ValueError
   \<and> sweep2 memo_lib one_x_train one_y_train toy_x_valid toy_y_valid
        (1 # py_range 100 1001 99) [] [] 0 = Inl ValueError
   \<and> sweep2 memo_lib one_x_train one_y_train toy_x_valid toy_y_valid
        (py_range 1 (1000 + 1) (max ((1000 - 1) div 10) 1)) [] [] 0 = Inl ValueError
   \<and> refine memo_lib one_x_train one_y_train toy_x_valid toy_y_valid 1 1000 0
        = Some (Inl ValueError)
   \<and> algorithm2 memo_lib one_x_train one_y_train toy_x_valid toy_y_valid toy_x_valid toy_y_valid 0
        = Some (Inl ValueError)"
proof -
  have h: "len_df toy_x_train \<noteq> len_series no_labels"
    by (simp add: len_df_def len_series_def toy_x_train_def no_labels_def)
  note d = estimate_variance_assertion [of memo_lib toy_tree toy_x_train no_labels toy_x_valid 0]
  from d h have direct: "estimate_variance memo_lib toy_tree toy_x_train no_labels toy_x_valid 0
        = Inl AssertionError" by blast
  have f: "fit memo_lib (DecisionTreeRegressor 1 (Some 2)) (array_df one_x_train)
        (array_series one_y_train) 0 = Inr (one_tree, 0)"
    by (simp add: fit_def DecisionTreeRegressor_def memo_lib_simps one_tree_def
        array_df_def array_series_def one_x_train_def one_y_train_def)
  have ev: "estimate_variance memo_lib one_tree one_x_train one_y_train toy_x_valid 0
        = Inl ValueError" by (rule one_row_estimate_variance)
  have r: "py_range 1 (1000 + 1) (max ((1000 - 1) div 10) 1) = 1 # py_range 100 1001 99"
    using py_range_first by simp
  note t = estimate_variance_assertion [of memo_lib one_tree one_x_train one_y_train
      toy_x_valid 0 1 one_tree 0 ValueError toy_y_valid "py_range 100 1001 99" "[]" "[]"
      1 1000 toy_x_valid toy_y_valid]
  from t f ev have sw: "sweep2 memo_lib one_x_train one_y_train toy_x_valid toy_y_valid
        (1 # py_range 100 1001 99) [] [] 0 = Inl ValueError" by blast
  then have sw': "sweep2 memo_lib one_x_train one_y_train toy_x_valid toy_y_valid
        (py_range 1 (1000 + 1) (max ((1000 - 1) div 10) 1)) [] [] 0 = Inl ValueError"
    by (simp only: r)
  from t sw' have rf: "refine memo_lib one_x_train one_y_train toy_x_valid toy_y_valid 1 1000 0
        = Some (Inl ValueError)" by blast
  from t rf have "algorithm2 memo_lib one_x_train one_y_train toy_x_valid toy_y_valid
        toy_x_valid toy_y_valid 0 = Some (Inl ValueError)" by blast
  with h direct f ev sw sw' rf show ?thesis by blast
qed

subsection \<open>Ranges, the best position, the sweeps\<close>

lemma py_range_bounds: "x \<in> set (py_range lo hi step) \<Longrightarrow> lo \<le> x \<and> x < hi"
proof (induction lo hi step rule: py_range.induct)
  case (1 lo hi step)
  show ?case
  proof (cases "step \<le> 0 \<or> hi \<le> lo")
    case True
    with "1.prems" show ?thesis by (simp add: py_range.simps [of lo hi step])
  next
    case False
    with "1.prems" have "x = lo \<or> x \<in> set (py_range (lo + step) hi step)"
      by (simp add: py_range.simps [of lo hi step])
    then show ?thesis
    proof
      assume "x = lo"
      with False show ?thesis by simp
    next
      assume "x \<in> set (py_range (lo + step) hi step)"
      with "1.IH" False have "lo + step \<le> x \<and> x < hi" by blast
      with False show ?thesis by simp
    qed
  qed
qed

lemma py_range_sorted: "sorted (py_range lo hi step)"
proof (induction lo hi step rule: py_range.induct)
  case (1 lo hi step)
  show ?case
  proof (cases "step \<le> 0 \<or> hi \<le> lo")
    case True
    then show ?thesis by (simp add: py_range.simps [of lo hi step])
  next
    case False
    have "\<forall>x \<in> set (py_range (lo + step) hi step). lo \<le> x"
      using py_range_bounds [of _ "lo + step" hi step] False by force
    with "1.IH" False show ?thesis by (simp add: py_range.simps [of lo hi step])
  qed
qed

lemma py_range_nonempty: "0 < step \<Longrightarrow> lo < hi \<Longrightarrow> py_range lo hi step \<noteq> []"
  by (simp add: py_range.simps [of lo hi step])

lemma py_range_hd: "0 < step \<Longrightarrow> lo < hi \<Longrightarrow> py_range lo hi step ! 0 = lo"
  by (simp add: py_range.simps [of lo hi step])

lemma py_range_step1: "py_range lo hi 1 = [lo ..hi - 1]"
proof (induction lo hi "1::int" rule: py_range.induct)
  case (1 lo hi)
  show ?case
  proof (cases "hi \<le> lo")
    case True
    then show ?thesis by (simp add: py_range.simps [of lo hi 1])
  next
    case False
    with "1.hyps" have "py_range (lo + 1) hi 1 = [lo + 1..hi - 1]" by simp
    with False show ?thesis
      by (simp add: py_range.simps [of lo hi 1] upto_rec1 [of lo "hi - 1"])
  qed
qed

lemma first_best_less: "xs \<noteq> [] \<Longrightarrow> first_best better xs < length xs"
  by (induction better xs rule: first_best.induct) (auto simp: Let_def)

lemma first_best_max_ge:
  "i < length xs \<Longrightarrow> xs ! i \<le> xs ! first_best (\<lambda>a b. b < a) xs"
proof (induction "\<lambda>a b::real. b < a" xs arbitrary: i rule: first_best.induct)
  case 1
  then show ?case by simp
next
  case (2 x)
  then show ?case by simp
next
  case (3 x y ys)
  let ?j = "first_best (\<lambda>a b. b < a) (y # ys)"
  show ?case
  proof (cases i)
    case 0
    then show ?thesis by (simp add: Let_def)
  next
    case (Suc k)
    with "3.prems" have "k < length (y # ys)" by simp
    then have "(y # ys) ! k \<le> (y # ys) ! ?j" by (rule "3.hyps")
    with Suc show ?thesis by (auto simp: Let_def)
  qed
qed

lemma first_best_max_first:
  "i < first_best (\<lambda>a b. b < a) xs \<Longrightarrow> xs ! i < xs ! first_best (\<lambda>a b. b < a) xs"
proof (induction "\<lambda>a b::real. b < a" xs arbitrary: i rule: first_best.induct)
  case 1
  then show ?case by simp
next
  case (2 x)
  then show ?case by simp
next
  case (3 x y ys)
  let ?j = "first_best (\<lambda>a b. b < a) (y # ys)"
  show ?case
  proof (cases "x < (y # ys) ! ?j")
    case False
    with "3.prems" show ?thesis by (simp add: Let_def)
  next
    case True
    show ?thesis
    proof (cases i)
      case 0
      with True show ?thesis by (simp add: Let_def)
    next
      case (Suc k)
      with "3.prems" True have "k < ?j" by (simp add: Let_def)
      then have "(y # ys) ! k < (y # ys) ! ?j" by (rule "3.hyps")
      with Suc True show ?thesis by (simp add: Let_def)
    qed
  qed
qed

lemma train_lengths:
  "0 < len_df x_train \<Longrightarrow> len_df x_train = len_series y_train \<Longrightarrow>
   nd_len (array_df x_train) \<noteq> 0
   \<and> nd_len (array_df x_train) = nd_len (array_series y_train)"
  by (auto simp: array_df_def array_series_def len_df_def len_series_def)

lemma sweep1_scores:
  assumes "nd_len (array_df x_train) \<noteq> 0"
    and "nd_len (array_df x_train) = nd_len (array_series y_train)"
  shows "sweep1 L x_train y_train x_valid y_valid ds depths valid_scores g
     = Inr (depths @ ds,
            valid_scores @
              map (\<lambda>k. tree_score L
                          (fst (tree_fit L (ds ! k) None (array_df x_train) (array_series y_train)
                                  (fit_gens L (array_df x_train) (array_series y_train) ds g ! k)))
                          (array_df x_valid) (array_series y_valid))
                [0 ..< length ds],
            fit_gens L (array_df x_train) (array_series y_train) ds g ! length ds)"
proof (induction ds arbitrary: depths valid_scores g)
  case Nil
  then show ?case by simp
next
  case (Cons d ds)
  let ?X = "array_df x_train" and ?Y = "array_series y_train"
  let ?g1 = "snd (tree_fit L d None ?X ?Y g)"
  have f: "fit L (DecisionTreeRegressor d None) ?X ?Y g
      = Inr ((DecisionTreeRegressor d None)\<lparr>fitted := Some (fst (tree_fit L d None ?X ?Y g))\<rparr>,
             ?g1)"
    using fit_ok [OF assms, of L "DecisionTreeRegressor d None" g]
    by (simp add: DecisionTreeRegressor_def)
  have s: "score L ((DecisionTreeRegressor d None)\<lparr>fitted := Some (fst (tree_fit L d None ?X ?Y g))\<rparr>)
             (array_df x_valid) (array_series y_valid)
      = Inr (tree_score L (fst (tree_fit L d None ?X ?Y g)) (array_df x_valid)
               (array_series y_valid))"
    by (simp add: score_def)
  show ?case
    by (simp add: f s Cons.IH map_upt_Suc del: upt_Suc)
qed

lemma sweep2_result:
  "sweep2 L xtr ytr xva yva ds depths errors g = Inr (depths', errors', g1) \<Longrightarrow>
   \<exists>es. depths' = depths @ ds \<and> errors' = errors @ es \<and> length es = length ds"
proof (induction ds arbitrary: depths errors g)
  case Nil
  then show ?case by simp
next
  case (Cons d ds)
  from Cons.prems obtain e ga where
    "sweep2 L xtr ytr xva yva ds (depths @ [d]) (errors @ [e]) ga = Inr (depths', errors', g1)"
    by (auto simp: Let_def split: prod.splits sum.splits)
  from Cons.IH [OF this] obtain es where
    "depths' = (depths @ [d]) @ ds \<and> errors' = (errors @ [e]) @ es \<and> length es = length ds"
    by blast
  then have "depths' = depths @ d # ds \<and> errors' = errors @ (e # es) \<and> length (e # es) = length (d # ds)"
    by simp
  then show ?case by blast
qed

lemma py_index_in_range:
  "0 \<le> i \<Longrightarrow> i < int (length xs) \<Longrightarrow> py_index xs i = Inr (xs ! nat i)"
  by (simp add: py_index_def Let_def)

lemma np_argmin_range:
  "np_argmin errors = Inr bi \<Longrightarrow> errors \<noteq> [] \<and> 0 \<le> bi \<and> bi < int (length errors)"
  using first_best_less [of errors "\<lambda>a b. a < b"]
  by (auto simp: np_argmin_def split: if_splits)

lemma refine_round:
  assumes sw: "sweep2 L xtr ytr xva yva
                 (py_range lower (upper + 1) (max ((upper - lower) div 10) 1)) [] [] g
               = Inr (depths, errors, g1)"
    and am: "np_argmin errors = Inr bi"
  shows "depths = py_range lower (upper + 1) (max ((upper - lower) div 10) 1)"
    and "depths \<noteq> []"
    and "length errors = length depths"
    and "0 \<le> bi \<and> bi < int (length depths)"
    and "py_index depths (max 0 (bi - 1)) = Inr (depths ! nat (max 0 (bi - 1)))"
    and "py_index depths (min (int (length depths) - 1) (bi + 1))
           = Inr (depths ! nat (min (int (length depths) - 1) (bi + 1)))"
    and "lower \<le> depths ! nat (max 0 (bi - 1))"
    and "depths ! nat (max 0 (bi - 1)) \<le> depths ! nat (min (int (length depths) - 1) (bi + 1))"
    and "depths ! nat (min (int (length depths) - 1) (bi + 1)) \<le> upper"
proof -
  let ?step = "max ((upper - lower) div 10) 1"
  let ?a = "nat (max 0 (bi - 1))" and ?b = "nat (min (int (length depths) - 1) (bi + 1))"
  from sweep2_result [OF sw] show d: "depths = py_range lower (upper + 1) ?step"
    and len: "length errors = length depths" by auto
  from np_argmin_range [OF am] len show ne: "depths \<noteq> []"
    and bi: "0 \<le> bi \<and> bi < int (length depths)" by auto
  from bi have a: "?a < length depths" and b: "?b < length depths" and ab: "?a \<le> ?b"
    by auto
  from bi show "py_index depths (max 0 (bi - 1)) = Inr (depths ! ?a)"
    by (intro py_index_in_range) auto
  from bi show "py_index depths (min (int (length depths) - 1) (bi + 1)) = Inr (depths ! ?b)"
    by (intro py_index_in_range) auto
  have "depths ! ?a \<in> set depths" using a by simp
  with d show "lower \<le> depths ! ?a" using py_range_bounds by blast
  have "depths ! ?b \<in> set depths" using b by simp
  with d have "depths ! ?b < upper + 1" using py_range_bounds by blast
  then show "depths ! ?b \<le> upper" by simp
  have "sorted depths" using d py_range_sorted by simp
  then show "depths ! ?a \<le> depths ! ?b" using ab b by (rule sorted_nth_mono)
qed

lemma refine_returns: "\<exists>r. refine L xtr ytr xva yva lower upper g = Some r"
proof (induction "nat (upper - lower)" arbitrary: lower upper g rule: less_induct)
  case less
  let ?sw = "sweep2 L xtr ytr xva yva
               (py_range lower (upper + 1) (max ((upper - lower) div 10) 1)) [] [] g"
  show ?case
  proof (cases ?sw)
    case (Inl e)
    then show ?thesis by (subst refine.simps) simp
  next
    case (Inr r)
    obtain depths errors g1 where r: "r = (depths, errors, g1)" by (cases r)
    with Inr have sw: "?sw = Inr (depths, errors, g1)" by simp
    show ?thesis
    proof (cases "np_argmin errors")
      case (Inl e)
      with sw show ?thesis by (subst refine.simps) simp
    next
      case am: (Inr bi)
      let ?nl = "depths ! nat (max 0 (bi - 1))"
      let ?nu = "depths ! nat (min (int (length depths) - 1) (bi + 1))"
      note rr = refine_round [OF sw am]
      from rr(3,4) have e: "py_index errors bi = Inr (errors ! nat bi)"
        and d: "py_index depths bi = Inr (depths ! nat bi)"
        by (simp_all add: py_index_in_range)
      show ?thesis
      proof (cases "?nl = lower \<and> ?nu = upper")
        case True
        then show ?thesis
          by (subst refine.simps) (simp add: sw am e d rr(5,6))
      next
        case False
        with rr(7,8,9) have "nat (?nu - ?nl) < nat (upper - lower)" by linarith
        then obtain r' where "refine L xtr ytr xva yva ?nl ?nu g1 = Some r'"
          using less.hyps by blast
        with False show ?thesis
          by (subst refine.simps) (simp add: sw am e d rr(5,6))
      qed
    qed
  qed
qed

text \<open>
  C4. The \<open>while True\<close> loop of Algorithm 2 ends, whatever errors the sweeps compute
  and from every \<open>lower\<close> and \<open>upper\<close>: \<open>refine\<close> answers \<open>Some\<close> result (a selection
  or an error), and so does the whole cell. The reason is \<open>refine_round\<close>: a round
  that does not break has \<open>lower \<le> new_lower \<le> new_upper \<le> upper\<close> with one
  of the outer inequalities strict, so \<open>upper - lower\<close> falls.
\<close>

theorem refine_terminates:
  "(\<exists>r. refine L x_train y_train x_valid y_valid lower upper g = Some r)
   \<and> (\<exists>r. algorithm2 L x_train y_train x_valid y_valid x_test y_test g = Some r)"
proof
  show "\<exists>r. refine L x_train y_train x_valid y_valid lower upper g = Some r"
    by (rule refine_returns)
next
  obtain r where r: "refine L x_train y_train x_valid y_valid 1 1000 g = Some r"
    using refine_returns [of L x_train y_train x_valid y_valid 1 1000 g] by auto
  show "\<exists>r. algorithm2 L x_train y_train x_valid y_valid x_test y_test g = Some r"
  proof (cases r)
    case (Inl e)
    with r show ?thesis by (simp add: algorithm2_def)
  next
    case (Inr v)
    obtain d e g1 where "v = (d, e, g1)" by (cases v)
    with Inr r show ?thesis
      by (auto simp: algorithm2_def Let_def split: prod.splits sum.splits)
  qed
qed

subsection \<open>The notebook on the small library\<close>

lemma toy_lengths [simp]:
  "nd_len (array_df toy_x_train) = 2" "nd_len (array_series toy_y_train) = 2"
  by (simp_all add: array_df_def array_series_def toy_x_train_def toy_y_train_def)

lemma map_err_replicate:
  "f x = Inr v \<Longrightarrow> map_err f (replicate n x) = Inr (replicate n v)"
  by (induction n) auto

lemma items_at_replicate: "items_at (replicate n (Arr1 [c])) 0 = Inr (replicate n c)"
proof -
  have "nd_item (Arr1 [c]) 0 = Inr [c]" by (simp add: py_index_def)
  then have "map_err (\<lambda>pred. nd_item pred 0) (replicate n (Arr1 [c])) = Inr (replicate n [c])"
    by (rule map_err_replicate)
  moreover have "concat (replicate n [c]) = replicate n c" by (induction n) auto
  ultimately show ?thesis by (simp add: items_at_def)
qed

lemma np_var_replicate: "np_var (replicate n c) = 0"
proof (cases "n = 0")
  case True
  then show ?thesis by (simp add: np_var_def np_mean_def)
next
  case False
  then have "np_mean (replicate n c) = c" by (simp add: np_mean_def sum_list_replicate)
  then show ?thesis by (simp add: np_var_def np_mean_def sum_list_replicate)
qed

lemma toy_bootstrap:
  "bootstrap memo_lib n [0, 1] (Arr2 [[1], [2]]) (Arr2 [[1], [2]]) toy_x_valid model preds g
     = Inr (preds @ replicate n (Arr1 [1]),
            (if n = 0 then model else model\<lparr>fitted := Some (Arr2 [[1]], Arr2 [[1]])\<rparr>),
            g + n)"
proof (induction n arbitrary: model preds g)
  case 0
  then show ?case by simp
next
  case (Suc n)
  have xv: "array_df toy_x_valid = Arr2 [[3]]"
    by (simp add: array_df_def toy_x_valid_def)
  show ?case
    by (simp add: Suc.IH memo_lib_simps py_take_def py_index_def fit_def predict_def
        xv np_mean_def replicate_append_same)
qed

lemma toy_estimate_variance:
  "estimate_variance memo_lib model toy_x_train toy_y_train toy_x_valid g
     = Inr (0, model\<lparr>fitted := Some (Arr2 [[1]], Arr2 [[1]])\<rparr>, g + 100)"
proof -
  have idx: "map int [0 ..< 2] = [0, 1]" by (simp add: upt_rec)
  have v: "variances_of (replicate 100 (Arr1 [1])) [0] = Inr [0]"
    by (simp add: variances_of_def items_at_replicate np_var_replicate)
  show ?thesis
    by (simp add: estimate_variance_def len_df_def len_series_def toy_x_train_def
        toy_y_train_def array_df_def idx toy_bootstrap v np_mean_def
        toy_x_valid_def [THEN arg_cong, of df_rows])
qed

lemma toy_sweep2:
  "sweep2 memo_lib toy_x_train toy_y_train toy_x_valid toy_y_valid [1] [] [] g
     = Inr ([1], [0], g + 100)"
  by (simp add: Let_def fit_def predict_def DecisionTreeRegressor_def toy_estimate_variance
      memo_lib_simps)

lemma py_range_one: "py_range 1 (1 + 1) (max ((1 - 1) div 10) 1) = [1]"
  by (simp add: py_range.simps)

text \<open>
  A run of Algorithm 2 on the toy data: four rounds, over \<open>[1, 1000]\<close>,
  \<open>[1, 100]\<close>, \<open>[1, 10]\<close> and \<open>[1, 2]\<close>, where the loop breaks.
\<close>

lemma toy_sweep2_all:
  "sweep2 memo_lib toy_x_train toy_y_train toy_x_valid toy_y_valid ds depths errors g
     = Inr (depths @ ds, errors @ replicate (length ds) 0, g + 100 * length ds)"
proof (induction ds arbitrary: depths errors g)
  case Nil
  then show ?case by simp
next
  case (Cons d ds)
  show ?case
    by (simp add: Let_def fit_def predict_def DecisionTreeRegressor_def toy_estimate_variance
        memo_lib_simps Cons.IH replicate_append_same)
qed

lemma toy_round:
  assumes "py_range lower (upper + 1) (max ((upper - lower) div 10) 1) = a # b # rest"
  shows "refine memo_lib toy_x_train toy_y_train toy_x_valid toy_y_valid lower upper g
     = (if a = lower \<and> b = upper then Some (Inr (a, 0, g + 100 * (length rest + 2)))
        else refine memo_lib toy_x_train toy_y_train toy_x_valid toy_y_valid a b
               (g + 100 * (length rest + 2)))"
proof -
  have fb: "first_best (\<lambda>a b. a < b) (replicate n (0::real)) = 0" for n
  proof (induction n)
    case 0
    then show ?case by simp
  next
    case (Suc n)
    then show ?case by (cases n) (simp_all add: Let_def)
  qed
  have am: "np_argmin (0 # 0 # replicate (length rest) 0) = Inr 0"
    using fb [of "Suc (Suc (length rest))"] by (simp add: np_argmin_def)
  have sw: "sweep2 memo_lib toy_x_train toy_y_train toy_x_valid toy_y_valid
              (a # b # rest) [] [] g
            = Inr (a # b # rest, 0 # 0 # replicate (length rest) 0, g + 100 * (length rest + 2))"
    by (simp only: toy_sweep2_all) simp
  show ?thesis
    by (subst refine.simps) (simp add: assms sw am py_index_def del: sweep2.simps)
qed

lemma toy_refine:
  "refine memo_lib toy_x_train toy_y_train toy_x_valid toy_y_valid 1 1000 0
     = Some (Inr (1, 0, 3500))"
proof -
  have r1: "py_range 1 (1000 + 1) (max ((1000 - 1) div 10) 1)
      = 1 # 100 # [199, 298, 397, 496, 595, 694, 793, 892, 991]"
    by (simp add: py_range.simps)
  have r2: "py_range 1 (100 + 1) (max ((100 - 1) div 10) 1)
      = 1 # 10 # [19, 28, 37, 46, 55, 64, 73, 82, 91, 100]"
    by (simp add: py_range.simps)
  have r3: "py_range 1 (10 + 1) (max ((10 - 1) div 10) 1) = 1 # 2 # [3, 4, 5, 6, 7, 8, 9, 10]"
    by (simp add: py_range.simps)
  have r4: "py_range 1 (2 + 1) (max ((2 - 1) div 10) 1) = 1 # 2 # []"
    by (simp add: py_range.simps)
  show ?thesis
    by (simp add: toy_round [OF r1] toy_round [OF r2] toy_round [OF r3] toy_round [OF r4])
qed

lemma toy_algorithm2:
  "algorithm2 memo_lib toy_x_train toy_y_train toy_x_valid toy_y_valid x_test y_test 0
     = Some (Inr (\<lparr>sel_depth = 1, sel_value = 0,
                    sel_tree = \<lparr>hp_max_depth = 1, hp_random_state = None,
                                fitted = Some (Arr2 [[1], [2]], Arr1 [5, 7])\<rparr>,
                    sel_test_score = 0\<rparr>, 3500))"
  by (simp add: algorithm2_def toy_refine)
     (simp add: fit_def score_def DecisionTreeRegressor_def
        memo_lib_simps array_df_def array_series_def toy_x_train_def toy_y_train_def)

text \<open>
  C10. In a round of the loop of Algorithm 2 with \<open>1 \<le> lower \<le> upper\<close> whose sweep
  completes, the step is at least \<open>1\<close>, \<open>depths\<close> and \<open>errors\<close> are non-empty and
  of one length, \<open>np.argmin(errors)\<close> answers a position of \<open>errors\<close>, and the two
  clamped positions are positions of \<open>depths\<close>: both reads succeed. What they read
  satisfies \<open>1 \<le> new_lower \<le> new_upper\<close>, so the next round is such a round too.
\<close>

theorem refine_round_safe:
  assumes "1 \<le> lower" and "lower \<le> upper"
    and "sweep2 L x_train y_train x_valid y_valid
           (py_range lower (upper + 1) (max ((upper - lower) div 10) 1)) [] [] g
         = Inr (depths, errors, g1)"
  shows "1 \<le> max ((upper - lower) div 10) 1
    \<and> depths \<noteq> [] \<and> errors \<noteq> [] \<and> length errors = length depths
    \<and> (\<exists>best_index. np_argmin errors = Inr best_index
          \<and> 0 \<le> best_index \<and> best_index < int (length errors)
          \<and> 0 \<le> max 0 (best_index - 1) \<and> max 0 (best_index - 1) < int (length depths)
          \<and> 0 \<le> min (int (length depths) - 1) (best_index + 1)
          \<and> min (int (length depths) - 1) (best_index + 1) < int (length depths)
          \<and> (\<exists>new_lower new_upper.
                py_index depths (max 0 (best_index - 1)) = Inr new_lower
              \<and> py_index depths (min (int (length depths) - 1) (best_index + 1)) = Inr new_upper
              \<and> 1 \<le> new_lower \<and> new_lower \<le> new_upper))"
proof -
  let ?step = "max ((upper - lower) div 10) 1"
  from sweep2_result [OF assms(3)] have d: "depths = py_range lower (upper + 1) ?step"
    and len: "length errors = length depths" by auto
  have ne: "depths \<noteq> []"
    unfolding d using assms(2) by (intro py_range_nonempty) auto
  with len have ne': "errors \<noteq> []" by auto
  then obtain bi where am: "np_argmin errors = Inr bi" by (simp add: np_argmin_def)
  note rr = refine_round [OF assms(3) am]
  from rr(4) len have "0 \<le> bi \<and> bi < int (length errors)" by simp
  moreover from rr(4) have "0 \<le> max 0 (bi - 1) \<and> max 0 (bi - 1) < int (length depths)
     \<and> 0 \<le> min (int (length depths) - 1) (bi + 1)
     \<and> min (int (length depths) - 1) (bi + 1) < int (length depths)" by auto
  moreover from rr(7) assms(1) have "1 \<le> depths ! nat (max 0 (bi - 1))" by simp
  ultimately show ?thesis
    using ne ne' len am rr(5,6,8) by auto
qed

theorem refine_round_safe_witness:
  "(1::int) \<le> 1 \<and> (1::int) \<le> 1
   \<and> sweep2 memo_lib toy_x_train toy_y_train toy_x_valid toy_y_valid
         (py_range 1 (1 + 1) (max ((1 - 1) div 10) 1)) [] [] 0 = Inr ([1], [0], 100)
   \<and> (1 \<le> max (((1::int) - 1) div 10) 1
      \<and> [1::int] \<noteq> [] \<and> [0::real] \<noteq> [] \<and> length [0::real] = length [1::int]
      \<and> (\<exists>best_index. np_argmin [0] = Inr best_index
            \<and> 0 \<le> best_index \<and> best_index < int (length [0::real])
            \<and> 0 \<le> max 0 (best_index - 1) \<and> max 0 (best_index - 1) < int (length [1::int])
            \<and> 0 \<le> min (int (length [1::int]) - 1) (best_index + 1)
            \<and> min (int (length [1::int]) - 1) (best_index + 1) < int (length [1::int])
            \<and> (\<exists>new_lower new_upper.
                  py_index [1::int] (max 0 (best_index - 1)) = Inr new_lower
                \<and> py_index [1::int] (min (int (length [1::int]) - 1) (best_index + 1))
                    = Inr new_upper
                \<and> 1 \<le> new_lower \<and> new_lower \<le> new_upper)))"
proof -
  have h1: "(1::int) \<le> 1" by simp
  have h3: "sweep2 memo_lib toy_x_train toy_y_train toy_x_valid toy_y_valid
              (py_range 1 (1 + 1) (max ((1 - 1) div 10) 1)) [] [] 0 = Inr ([1], [0], 100)"
    using toy_sweep2 [of 0] by (simp only: py_range_one) simp
  note c = refine_round_safe [OF h1 h1 h3]
  show ?thesis by (rule conjI [OF h1 conjI [OF h1 conjI [OF h3 c]]])
qed

subsection \<open>Algorithm 1 keeps the first highest score\<close>

lemma range_1_1000: "py_range 1 1000 1 = [1..999]"
  by (simp add: py_range_step1)

lemma np_argmax_range:
  "xs \<noteq> [] \<Longrightarrow> np_argmax xs = Inr (int (first_best (\<lambda>a b. b < a) xs))"
  by (simp add: np_argmax_def)

lemma first_best_Max:
  assumes "xs \<noteq> []"
  shows "xs ! first_best (\<lambda>a b. b < a) xs = Max (set xs)"
proof (rule Max_eqI [symmetric])
  show "finite (set xs)" by simp
  show "xs ! first_best (\<lambda>a b. b < a) xs \<in> set xs"
    using first_best_less [OF assms] by simp
  fix y assume "y \<in> set xs"
  then obtain i where "i < length xs" "xs ! i = y" by (auto simp: in_set_conv_nth)
  then show "y \<le> xs ! first_best (\<lambda>a b. b < a) xs"
    using first_best_max_ge by blast
qed

lemma fit_gens_length: "length (fit_gens L x y ds g) = Suc (length ds)"
  by (induction ds arbitrary: g) auto

lemma fit_gens_0: "fit_gens L x y ds g ! 0 = g"
  by (cases ds) auto

lemma fit_gens_Suc:
  "k < length ds \<Longrightarrow>
   fit_gens L x y ds g ! Suc k = snd (tree_fit L (ds ! k) None x y (fit_gens L x y ds g ! k))"
proof (induction ds arbitrary: g k)
  case Nil
  then show ?case by simp
next
  case (Cons d ds)
  show ?case
  proof (cases k)
    case 0
    then show ?thesis by (simp add: fit_gens_0)
  next
    case (Suc j)
    with Cons.prems have "j < length ds" by simp
    from Cons.IH [OF this] Suc show ?thesis by simp
  qed
qed

lemma depth_lib_simps:
  "tree_fit depth_lib d r x y g = ((Arr1 [of_int d], y), g + 1)"
  "tree_score depth_lib f x y = - (np_mean (nd_flat (fst f)) - np_mean (nd_flat y))\<^sup>2"
  by (simp_all add: depth_lib_def)

text \<open>
  C2. On a train set of at least one row, with as many labels as rows, Algorithm 1
  sweeps \<open>max_depth\<close> over \<open>1, ..., 999\<close>. For each depth it fits a tree of that
  depth on the train set, in the generator state the fits before it have left, and
  computes the score of this tree on the validation set: these are the
  \<open>valid_scores\<close>. Its \<open>best_score\<close> is their maximum, its \<open>best_depth\<close> is the
  first depth of the sweep whose score is that maximum (every earlier depth scores
  strictly less), and the tree it reports at the end is a \<open>DecisionTreeRegressor\<close>
  of exactly that \<open>max_depth\<close>, fitted on the train set.
\<close>

theorem algorithm1_maximises:
  assumes "0 < len_df x_train" and "len_df x_train = len_series y_train"
  shows "\<exists>valid_scores gs r g2.
      length gs = 1000 \<and> gs ! 0 = g
    \<and> (\<forall>k < 999.
          gs ! Suc k = snd (tree_fit L (int k + 1) None (array_df x_train)
                              (array_series y_train) (gs ! k))
        \<and> valid_scores ! k
            = tree_score L
                (fst (tree_fit L (int k + 1) None (array_df x_train) (array_series y_train)
                        (gs ! k)))
                (array_df x_valid) (array_series y_valid))
    \<and> sweep1 L x_train y_train x_valid y_valid (py_range 1 1000 1) [] [] g
        = Inr (map int [1 ..< 1000], valid_scores, gs ! 999)
    \<and> length valid_scores = 999
    \<and> algorithm1 L x_train y_train x_valid y_valid x_test y_test g = Inr (r, g2)
    \<and> sel_value r = Max (set valid_scores)
    \<and> 1 \<le> sel_depth r \<and> sel_depth r \<le> 999
    \<and> valid_scores ! nat (sel_depth r - 1) = sel_value r
    \<and> (\<forall>d. 1 \<le> d \<and> d < sel_depth r \<longrightarrow> valid_scores ! nat (d - 1) < sel_value r)
    \<and> hp_max_depth (sel_tree r) = sel_depth r
    \<and> hp_random_state (sel_tree r) = None
    \<and> fitted (sel_tree r)
        = Some (fst (tree_fit L (sel_depth r) None (array_df x_train) (array_series y_train)
                       (gs ! 999)))"
proof -
  let ?X = "array_df x_train" and ?Y = "array_series y_train"
  let ?V = "array_df x_valid" and ?W = "array_series y_valid"
  let ?ds = "py_range 1 1000 1"
  note tl = train_lengths [OF assms]
  have ds: "?ds = [1..999]" by (rule range_1_1000)
  have dsm: "?ds = map int [1 ..< 1000]"
    unfolding ds by (rule nth_equalityI) auto
  have lds: "length ?ds = 999" unfolding ds by simp
  have dsk: "?ds ! k = int k + 1" if "k < 999" for k
    using that unfolding ds by simp
  define gs where "gs = fit_gens L ?X ?Y ?ds g"
  define scores where
    "scores = map (\<lambda>k. tree_score L (fst (tree_fit L (?ds ! k) None ?X ?Y (gs ! k))) ?V ?W)
                [0 ..< 999]"
  have sw: "sweep1 L x_train y_train x_valid y_valid ?ds [] [] g
      = Inr (map int [1 ..< 1000], scores, gs ! 999)"
    using sweep1_scores [of x_train y_train L x_valid y_valid ?ds "[]" "[]" g] tl dsm
    by (simp add: scores_def gs_def lds)
  have lgs: "length gs = 1000" by (simp add: gs_def fit_gens_length lds)
  have g0: "gs ! 0 = g" by (simp add: gs_def fit_gens_0)
  have tie: "\<forall>k < 999.
          gs ! Suc k = snd (tree_fit L (int k + 1) None ?X ?Y (gs ! k))
        \<and> scores ! k = tree_score L (fst (tree_fit L (int k + 1) None ?X ?Y (gs ! k))) ?V ?W"
  proof (intro allI impI)
    fix k :: nat assume k: "k < 999"
    then have "gs ! Suc k = snd (tree_fit L (?ds ! k) None ?X ?Y (gs ! k))"
      unfolding gs_def by (intro fit_gens_Suc) (simp add: lds)
    moreover have "scores ! k = tree_score L (fst (tree_fit L (?ds ! k) None ?X ?Y (gs ! k))) ?V ?W"
      using k by (simp add: scores_def)
    ultimately show "gs ! Suc k = snd (tree_fit L (int k + 1) None ?X ?Y (gs ! k))
        \<and> scores ! k = tree_score L (fst (tree_fit L (int k + 1) None ?X ?Y (gs ! k))) ?V ?W"
      using dsk [OF k] by simp
  qed
  have len: "length scores = 999" by (simp add: scores_def)
  then have ne: "scores \<noteq> []" by auto
  let ?k = "first_best (\<lambda>a b. b < a) scores"
  have k: "?k < 999" using first_best_less [OF ne, of "\<lambda>a b. b < a"] len by simp
  have am: "np_argmax scores = Inr (int ?k)" by (rule np_argmax_range [OF ne])
  have dk: "py_index (map int [1 ..< 1000]) (int ?k) = Inr (1 + int ?k)"
    using k by (simp add: py_index_def)
  have sk: "py_index scores (int ?k) = Inr (scores ! ?k)"
    using k len by (simp add: py_index_def)
  let ?f = "fst (tree_fit L (1 + int ?k) None ?X ?Y (gs ! 999))"
  let ?g2 = "snd (tree_fit L (1 + int ?k) None ?X ?Y (gs ! 999))"
  let ?t = "(DecisionTreeRegressor (1 + int ?k) None)\<lparr>fitted := Some ?f\<rparr>"
  have f: "fit L (DecisionTreeRegressor (1 + int ?k) None) ?X ?Y (gs ! 999) = Inr (?t, ?g2)"
    using fit_ok [of ?X ?Y L "DecisionTreeRegressor (1 + int ?k) None" "gs ! 999"] tl
    by (simp add: DecisionTreeRegressor_def)
  let ?r = "\<lparr>sel_depth = 1 + int ?k, sel_value = scores ! ?k, sel_tree = ?t,
            sel_test_score = tree_score L ?f (array_df x_test) (array_series y_test)\<rparr>"
  have a1: "algorithm1 L x_train y_train x_valid y_valid x_test y_test g = Inr (?r, ?g2)"
    using sw am dk sk f by (simp add: algorithm1_def score_def DecisionTreeRegressor_def)
  have first: "\<forall>d. 1 \<le> d \<and> d < 1 + int ?k \<longrightarrow> scores ! nat (d - 1) < scores ! ?k"
  proof (intro allI impI)
    fix d :: int assume "1 \<le> d \<and> d < 1 + int ?k"
    then have "nat (d - 1) < ?k" by linarith
    then show "scores ! nat (d - 1) < scores ! ?k" by (rule first_best_max_first)
  qed
  have "sel_value ?r = Max (set scores)" using first_best_Max [OF ne] by simp
  moreover have "1 \<le> sel_depth ?r \<and> sel_depth ?r \<le> 999" using k by simp
  moreover have "scores ! nat (sel_depth ?r - 1) = sel_value ?r" by simp
  moreover have "\<forall>d. 1 \<le> d \<and> d < sel_depth ?r \<longrightarrow> scores ! nat (d - 1) < sel_value ?r"
    using first by simp
  moreover have "hp_max_depth (sel_tree ?r) = sel_depth ?r"
    "hp_random_state (sel_tree ?r) = None"
    "fitted (sel_tree ?r) = Some (fst (tree_fit L (sel_depth ?r) None ?X ?Y (gs ! 999)))"
    by (simp_all add: DecisionTreeRegressor_def)
  ultimately show ?thesis using lgs g0 tie sw len a1 by blast
qed

theorem algorithm1_maximises_witness:
  "0 < len_df toy_x_train \<and> len_df toy_x_train = len_series toy_y_train
   \<and> (\<exists>valid_scores gs r g2.
        gs ! 0 = 0
      \<and> valid_scores ! 0
          = tree_score depth_lib
              (fst (tree_fit depth_lib (int 0 + 1) None (array_df toy_x_train)
                      (array_series toy_y_train) (gs ! 0)))
              (array_df toy_x_valid) (array_series toy_y_valid)
      \<and> valid_scores ! 0 = - 64
      \<and> algorithm1 depth_lib toy_x_train toy_y_train toy_x_valid toy_y_valid
            toy_x_valid toy_y_valid 0 = Inr (r, g2)
      \<and> sel_value r = Max (set valid_scores)
      \<and> sel_value r = 0 \<and> sel_depth r = 9
      \<and> (1::int) \<le> 1 \<and> 1 < sel_depth r
      \<and> valid_scores ! nat (1 - 1) < sel_value r
      \<and> hp_max_depth (sel_tree r) = 9)"
proof -
  have h1: "0 < len_df toy_x_train" and h2: "len_df toy_x_train = len_series toy_y_train"
    by (simp_all add: len_df_def len_series_def toy_x_train_def toy_y_train_def)
  let ?sc = "\<lambda>k::nat. - (of_int (int k + 1) - 9 :: real)\<^sup>2"
  from algorithm1_maximises [OF h1 h2, of 0 depth_lib toy_x_valid toy_y_valid
      toy_x_valid toy_y_valid]
  obtain valid_scores gs r g2 where
    g0: "gs ! 0 = (0::nat)"
    and tie: "\<forall>k < 999.
          gs ! Suc k = snd (tree_fit depth_lib (int k + 1) None (array_df toy_x_train)
                              (array_series toy_y_train) (gs ! k))
        \<and> valid_scores ! k
            = tree_score depth_lib
                (fst (tree_fit depth_lib (int k + 1) None (array_df toy_x_train)
                        (array_series toy_y_train) (gs ! k)))
                (array_df toy_x_valid) (array_series toy_y_valid)"
    and len: "length valid_scores = 999"
    and a1: "algorithm1 depth_lib toy_x_train toy_y_train toy_x_valid toy_y_valid
        toy_x_valid toy_y_valid 0 = Inr (r, g2)"
    and mx: "sel_value r = Max (set valid_scores)"
    and rg: "1 \<le> sel_depth r" "sel_depth r \<le> 999"
    and at: "valid_scores ! nat (sel_depth r - 1) = sel_value r"
    and first: "\<forall>d. 1 \<le> d \<and> d < sel_depth r \<longrightarrow> valid_scores ! nat (d - 1) < sel_value r"
    and hp: "hp_max_depth (sel_tree r) = sel_depth r"
    by blast
  have yv: "np_mean (nd_flat (array_series toy_y_valid)) = 9"
    by (simp add: array_series_def toy_y_valid_def np_mean_def)
  have m1: "np_mean [c] = c" for c
    by (simp add: np_mean_def)
  have nth: "valid_scores ! k = ?sc k" if "k < 999" for k
    using tie that by (simp add: depth_lib_simps yv m1)
  from tie have t0: "valid_scores ! 0
          = tree_score depth_lib
              (fst (tree_fit depth_lib (int 0 + 1) None (array_df toy_x_train)
                      (array_series toy_y_train) (gs ! 0)))
              (array_df toy_x_valid) (array_series toy_y_valid)"
    by simp
  have v0: "valid_scores ! 0 = - 64" using nth [of 0] by simp
  have "Max (set valid_scores) = 0"
  proof (rule Max_eqI)
    show "finite (set valid_scores)" by simp
    show "y \<le> 0" if "y \<in> set valid_scores" for y
    proof -
      from that obtain k where "k < 999" "y = valid_scores ! k"
        using len by (auto simp: in_set_conv_nth)
      then show ?thesis using nth [of k] by simp
    qed
    have "valid_scores ! 8 = 0" using nth [of 8] by simp
    moreover have "8 < length valid_scores" by (simp add: len)
    ultimately show "0 \<in> set valid_scores" by (metis nth_mem)
  qed
  with mx have v: "sel_value r = 0" by simp
  from rg have "nat (sel_depth r - 1) < 999" by simp
  from nth [OF this] at v rg have d9: "sel_depth r = 9" by simp
  have h: "(1::int) \<le> 1 \<and> 1 < sel_depth r" using d9 by simp
  with first have lt: "valid_scores ! nat (1 - 1) < sel_value r" by blast
  from hp d9 have hp9: "hp_max_depth (sel_tree r) = 9" by simp
  from g0 t0 v0 a1 mx v d9 h lt hp9
  have "\<exists>valid_scores gs r g2.
        gs ! 0 = 0
      \<and> valid_scores ! 0
          = tree_score depth_lib
              (fst (tree_fit depth_lib (int 0 + 1) None (array_df toy_x_train)
                      (array_series toy_y_train) (gs ! 0)))
              (array_df toy_x_valid) (array_series toy_y_valid)
      \<and> valid_scores ! 0 = - 64
      \<and> algorithm1 depth_lib toy_x_train toy_y_train toy_x_valid toy_y_valid
            toy_x_valid toy_y_valid 0 = Inr (r, g2)
      \<and> sel_value r = Max (set valid_scores)
      \<and> sel_value r = 0 \<and> sel_depth r = 9
      \<and> (1::int) \<le> 1 \<and> 1 < sel_depth r
      \<and> valid_scores ! nat (1 - 1) < sel_value r
      \<and> hp_max_depth (sel_tree r) = 9"
    by blast
  with h1 h2 show ?thesis by blast
qed

subsection \<open>The test set plays no part in the selection\<close>

lemma algorithm1_shape:
  "(\<exists>e. \<forall>x_test y_test.
       algorithm1 L x_train y_train x_valid y_valid x_test y_test g = Inl e)
   \<or> (\<exists>d v t g2 f. \<forall>x_test y_test.
       algorithm1 L x_train y_train x_valid y_valid x_test y_test g
         = Inr (\<lparr>sel_depth = d, sel_value = v, sel_tree = t,
                 sel_test_score = tree_score L f (array_df x_test) (array_series y_test)\<rparr>, g2))"
proof (cases "sweep1 L x_train y_train x_valid y_valid (py_range 1 1000 1) [] [] g")
  case (Inl e)
  then show ?thesis by (simp add: algorithm1_def)
next
  case (Inr r)
  obtain depths scores g1 where r: "r = (depths, scores, g1)" by (cases r)
  show ?thesis
  proof (cases "np_argmax scores")
    case (Inl e)
    with Inr r show ?thesis by (simp add: algorithm1_def)
  next
    case bi: (Inr best_index)
    show ?thesis
    proof (cases "py_index depths best_index")
      case (Inl e)
      with Inr r bi show ?thesis by (simp add: algorithm1_def)
    next
      case d: (Inr d)
      show ?thesis
      proof (cases "py_index scores best_index")
        case (Inl e)
        with Inr r bi d show ?thesis by (simp add: algorithm1_def)
      next
        case v: (Inr v)
        show ?thesis
        proof (cases "fit L (DecisionTreeRegressor d None) (array_df x_train)
                        (array_series y_train) g1")
          case (Inl e)
          with Inr r bi d v show ?thesis by (simp add: algorithm1_def)
        next
          case fr: (Inr q)
          obtain tree1 g2 where q: "q = (tree1, g2)" by (cases q)
          with fr have f: "fit L (DecisionTreeRegressor d None) (array_df x_train)
              (array_series y_train) g1 = Inr (tree1, g2)" by simp
          have "\<forall>x_test y_test.
             algorithm1 L x_train y_train x_valid y_valid x_test y_test g
               = Inr (\<lparr>sel_depth = d, sel_value = v, sel_tree = tree1,
                   sel_test_score = tree_score L (fst (tree_fit L d None (array_df x_train)
                      (array_series y_train) g1)) (array_df x_test) (array_series y_test)\<rparr>, g2)"
            using Inr r bi d v f score_fit [OF f]
            by (simp add: algorithm1_def DecisionTreeRegressor_def)
          then show ?thesis by blast
        qed
      qed
    qed
  qed
qed

lemma algorithm2_shape:
  "(\<exists>e. \<forall>x_test y_test.
       algorithm2 L x_train y_train x_valid y_valid x_test y_test g = Some (Inl e))
   \<or> (\<exists>d v t g2 f. \<forall>x_test y_test.
       algorithm2 L x_train y_train x_valid y_valid x_test y_test g
         = Some (Inr (\<lparr>sel_depth = d, sel_value = v, sel_tree = t,
                 sel_test_score = tree_score L f (array_df x_test) (array_series y_test)\<rparr>, g2)))"
proof -
  obtain r where r: "refine L x_train y_train x_valid y_valid 1 1000 g = Some r"
    using refine_returns [of L x_train y_train x_valid y_valid 1 1000 g] by auto
  show ?thesis
  proof (cases r)
    case (Inl e)
    with r show ?thesis by (simp add: algorithm2_def)
  next
    case (Inr w)
    obtain d v g1 where w: "w = (d, v, g1)" by (cases w)
    show ?thesis
    proof (cases "fit L (DecisionTreeRegressor d None) (array_df x_train)
                    (array_series y_train) g1")
      case (Inl e)
      with r Inr w show ?thesis by (simp add: algorithm2_def)
    next
      case fr: (Inr q)
      obtain tree1 g2 where q: "q = (tree1, g2)" by (cases q)
      with fr have f: "fit L (DecisionTreeRegressor d None) (array_df x_train)
          (array_series y_train) g1 = Inr (tree1, g2)" by simp
      have "\<forall>x_test y_test.
         algorithm2 L x_train y_train x_valid y_valid x_test y_test g
           = Some (Inr (\<lparr>sel_depth = d, sel_value = v, sel_tree = tree1,
                   sel_test_score = tree_score L (fst (tree_fit L d None (array_df x_train)
                      (array_series y_train) g1)) (array_df x_test) (array_series y_test)\<rparr>, g2))"
        using r Inr w f score_fit [OF f]
        by (simp add: algorithm2_def DecisionTreeRegressor_def)
      then show ?thesis by blast
    qed
  qed
qed

text \<open>
  C3. Neither algorithm reads the test split. Run one after the other on two test
  sets \<open>x_test, y_test\<close> and \<open>x_test', y_test'\<close>, everything else equal, the two
  runs agree on all they answer but the two test scores: the same \<open>best_depth\<close> of
  Algorithm 1 and of Algorithm 2, the same best values, final trees and generator, or
  the same error.
\<close>

theorem selection_ignores_test:
  "selected (run_algorithms L x_train y_train x_valid y_valid x_test y_test g)
     = selected (run_algorithms L x_train y_train x_valid y_valid x_test' y_test' g)
   \<and> selected_depths (run_algorithms L x_train y_train x_valid y_valid x_test y_test g)
     = selected_depths (run_algorithms L x_train y_train x_valid y_valid x_test' y_test' g)"
proof -
  from algorithm1_shape [of L x_train y_train x_valid y_valid g]
  show ?thesis
  proof (elim disjE exE)
    fix e
    assume "\<forall>x_test y_test. algorithm1 L x_train y_train x_valid y_valid x_test y_test g = Inl e"
    then show ?thesis by (simp add: run_algorithms_def)
  next
    fix d v t g2 f
    assume a1: "\<forall>x_test y_test.
       algorithm1 L x_train y_train x_valid y_valid x_test y_test g
         = Inr (\<lparr>sel_depth = d, sel_value = v, sel_tree = t,
                 sel_test_score = tree_score L f (array_df x_test) (array_series y_test)\<rparr>, g2)"
    from algorithm2_shape [of L x_train y_train x_valid y_valid g2]
    show ?thesis
    proof (elim disjE exE)
      fix e
      assume "\<forall>x_test y_test. algorithm2 L x_train y_train x_valid y_valid x_test y_test g2 = Some (Inl e)"
      with a1 show ?thesis by (simp add: run_algorithms_def selected_def selected_depths_def)
    next
      fix d' v' t' g3 f'
      assume "\<forall>x_test y_test.
       algorithm2 L x_train y_train x_valid y_valid x_test y_test g2
         = Some (Inr (\<lparr>sel_depth = d', sel_value = v', sel_tree = t',
                 sel_test_score = tree_score L f' (array_df x_test) (array_series y_test)\<rparr>, g3))"
      with a1 show ?thesis
        by (simp add: run_algorithms_def selected_def selected_depths_def forget_test_score_def)
    qed
  qed
qed

subsection \<open>What \<open>estimate_variance\<close> does to the model and to the labels\<close>

lemma bootstrap_hyperparameters:
  "bootstrap L n idx x y xv model preds g = Inr (preds', model', g') \<Longrightarrow>
   hp_max_depth model' = hp_max_depth model \<and> hp_random_state model' = hp_random_state model"
proof (induction n arbitrary: model preds g)
  case 0
  then show ?case by simp
next
  case (Suc n)
  from Suc.prems obtain sx sy g1 model1 g2 pred where
    f: "fit L model sx sy g1 = Inr (model1, g2)"
    and rest: "bootstrap L n idx x y xv model1 (preds @ [pred]) g2 = Inr (preds', model', g')"
    by (auto simp: Let_def split: sum.splits prod.splits)
  from fit_Inr(3) [OF f] have "hp_max_depth model1 = hp_max_depth model"
    "hp_random_state model1 = hp_random_state model" by simp_all
  with Suc.IH [OF rest] show ?case by simp
qed

text \<open>
  The loop of \<open>n + 1\<close> rounds is one round and the loop of \<open>n\<close> rounds, and it is
  the loop of \<open>n\<close> rounds and one round more.
\<close>

lemma bootstrap_first:
  "bootstrap L (Suc n) idx x y xv model preds g
     = (case bootstrap L (Suc 0) idx x y xv model preds g of
          Inl e \<Rightarrow> Inl e
        | Inr (preds1, model1, g1) \<Rightarrow> bootstrap L n idx x y xv model1 preds1 g1)"
  by (simp add: Let_def split: prod.splits sum.splits)

lemma bootstrap_last:
  "bootstrap L (Suc n) idx x y xv model preds g
     = (case bootstrap L n idx x y xv model preds g of
          Inl e \<Rightarrow> Inl e
        | Inr (preds1, model1, g1) \<Rightarrow> bootstrap L (Suc 0) idx x y xv model1 preds1 g1)"
proof (induction n arbitrary: model preds g)
  case 0
  show ?case by (simp only: bootstrap.simps(1) sum.case prod.case)
next
  case (Suc n)
  note f2 = bootstrap_first [of L "Suc n" idx x y xv model preds g]
  note f1 = bootstrap_first [of L n idx x y xv model preds g]
  show ?case
  proof (cases "bootstrap L (Suc 0) idx x y xv model preds g")
    case (Inl e)
    from f2 Inl have l: "bootstrap L (Suc (Suc n)) idx x y xv model preds g = Inl e"
      by (simp only: sum.case)
    from f1 Inl have "bootstrap L (Suc n) idx x y xv model preds g = Inl e"
      by (simp only: sum.case)
    with l show ?thesis by (simp only: sum.case)
  next
    case (Inr q)
    obtain p1 m1 g1 where q: "q = (p1, m1, g1)" by (cases q)
    from f2 Inr q have l: "bootstrap L (Suc (Suc n)) idx x y xv model preds g
        = bootstrap L (Suc n) idx x y xv m1 p1 g1"
      by (simp only: sum.case prod.case)
    from f1 Inr q have r: "bootstrap L (Suc n) idx x y xv model preds g
        = bootstrap L n idx x y xv m1 p1 g1"
      by (simp only: sum.case prod.case)
    from l r Suc.IH [of m1 p1 g1] show ?thesis by (simp only:)
  qed
qed

lemma fit_entry_state:
  "fit L (model\<lparr>fitted := a\<rparr>) x y g = fit L model x y g"
  by (simp add: fit_def)

lemma bootstrap_entry_state:
  "bootstrap L (Suc n) idx x y xv (model\<lparr>fitted := a\<rparr>) preds g
     = bootstrap L (Suc n) idx x y xv model preds g"
  by (simp add: fit_entry_state cong: sum.case_cong prod.case_cong)

lemma estimate_variance_entry_state:
  "estimate_variance L (model\<lparr>fitted := a\<rparr>) x_train y_train x_valid g
     = estimate_variance L model x_train y_train x_valid g"
proof -
  have n: "(100::nat) = Suc 99" by simp
  show ?thesis
    unfolding estimate_variance_def Let_def n by (simp only: bootstrap_entry_state)
qed

text \<open>
  C9, as amended. \<open>estimate_variance\<close> refits the model of its caller in place and
  draws from the global generator. When it returns, the model and the generator are
  those the last, hundredth round of its loop leaves: the round draws a resample
  \<open>subset\<close> in the generator the first \<open>99\<close> rounds have left, and calls \<open>fit\<close>
  on the rows of \<open>x_train\<close> at \<open>subset\<close>. The hyperparameters of the model are those
  at entry; what it had learnt at entry plays no part in what comes back.
\<close>

theorem estimate_variance_refits:
  "estimate_variance L model x_train y_train x_valid g = Inr (variance, model', g') \<Longrightarrow>
   (\<exists>preds model99 g99 subset gc sx.
       bootstrap L 99 (map int [0 ..< len_df x_train]) (array_df x_train) (array_df x_train)
         x_valid model [] g = Inr (preds, model99, g99)
     \<and> np_random_choice L (map int [0 ..< len_df x_train]) (len_df x_train div 2) g99
         = (subset, gc)
     \<and> nd_take (array_df x_train) subset = Inr sx
     \<and> fit L model99 sx sx gc = Inr (model', g')
     \<and> fitted model'
         = Some (fst (tree_fit L (hp_max_depth model) (hp_random_state model) sx sx gc))
     \<and> g' = snd (tree_fit L (hp_max_depth model) (hp_random_state model) sx sx gc))
   \<and> hp_max_depth model' = hp_max_depth model
   \<and> hp_random_state model' = hp_random_state model
   \<and> estimate_variance L (model\<lparr>fitted := a\<rparr>) x_train y_train x_valid g
       = Inr (variance, model', g')"
proof -
  assume ev: "estimate_variance L model x_train y_train x_valid g = Inr (variance, model', g')"
  let ?idx = "map int [0 ..< len_df x_train]" and ?X = "array_df x_train"
  have n: "(100::nat) = Suc 99" by simp
  from ev obtain preds' where
    b: "bootstrap L (Suc 99) ?idx ?X ?X x_valid model [] g = Inr (preds', model', g')"
    unfolding estimate_variance_def Let_def n
    by (auto split: if_splits sum.splits)
  have bl: "bootstrap L (Suc 99) ?idx ?X ?X x_valid model [] g
      = (case bootstrap L 99 ?idx ?X ?X x_valid model [] g of
           Inl e \<Rightarrow> Inl e
         | Inr (preds1, model1, g1) \<Rightarrow> bootstrap L (Suc 0) ?idx ?X ?X x_valid model1 preds1 g1)"
    by (rule bootstrap_last)
  obtain preds model99 g99 where
    b99: "bootstrap L 99 ?idx ?X ?X x_valid model [] g = Inr (preds, model99, g99)"
    and last: "bootstrap L (Suc 0) ?idx ?X ?X x_valid model99 preds g99
                 = Inr (preds', model', g')"
  proof (cases "bootstrap L 99 ?idx ?X ?X x_valid model [] g")
    case (Inl e)
    with b bl show ?thesis by (simp only: sum.case) simp
  next
    case (Inr q)
    obtain p m ga where q: "q = (p, m, ga)" by (cases q)
    from b bl Inr q have "bootstrap L (Suc 0) ?idx ?X ?X x_valid m p ga
        = Inr (preds', model', g')"
      by (simp only: sum.case prod.case)
    with Inr q that show ?thesis by simp
  qed
  obtain subset gc where ch: "np_random_choice L ?idx (len_df x_train div 2) g99 = (subset, gc)"
    by (cases "np_random_choice L ?idx (len_df x_train div 2) g99")
  from last ch obtain sx where sx: "nd_take ?X subset = Inr sx"
    and f: "fit L model99 sx sx gc = Inr (model', g')"
    by (auto simp: Let_def split: sum.splits)
  note hp99 = bootstrap_hyperparameters [OF b99]
  from fit_Inr(3,4) [OF f] hp99
  have ft: "fitted model'
         = Some (fst (tree_fit L (hp_max_depth model) (hp_random_state model) sx sx gc))"
    and gt: "g' = snd (tree_fit L (hp_max_depth model) (hp_random_state model) sx sx gc)"
    by simp_all
  note hp = bootstrap_hyperparameters [OF b]
  from ev have es: "estimate_variance L (model\<lparr>fitted := a\<rparr>) x_train y_train x_valid g
       = Inr (variance, model', g')"
    by (simp only: estimate_variance_entry_state)
  from b99 ch sx f ft gt hp es show ?thesis by blast
qed

theorem estimate_variance_refits_witness:
  "estimate_variance memo_lib toy_tree toy_x_train toy_y_train toy_x_valid 0
     = Inr (0, toy_tree\<lparr>fitted := Some (Arr2 [[1]], Arr2 [[1]])\<rparr>, 100)
   \<and> (\<exists>preds model99 g99 subset gc sx.
       bootstrap memo_lib 99 (map int [0 ..< len_df toy_x_train]) (array_df toy_x_train)
         (array_df toy_x_train) toy_x_valid toy_tree [] 0 = Inr (preds, model99, g99)
     \<and> np_random_choice memo_lib (map int [0 ..< len_df toy_x_train])
         (len_df toy_x_train div 2) g99 = (subset, gc)
     \<and> nd_take (array_df toy_x_train) subset = Inr sx
     \<and> fit memo_lib model99 sx sx gc
         = Inr (toy_tree\<lparr>fitted := Some (Arr2 [[1]], Arr2 [[1]])\<rparr>, 100)
     \<and> fitted (toy_tree\<lparr>fitted := Some (Arr2 [[1]], Arr2 [[1]])\<rparr>)
         = Some (fst (tree_fit memo_lib (hp_max_depth toy_tree) (hp_random_state toy_tree)
                        sx sx gc))
     \<and> (100::nat) = snd (tree_fit memo_lib (hp_max_depth toy_tree) (hp_random_state toy_tree)
                            sx sx gc))
   \<and> hp_max_depth (toy_tree\<lparr>fitted := Some (Arr2 [[1]], Arr2 [[1]])\<rparr>) = hp_max_depth toy_tree
   \<and> hp_random_state (toy_tree\<lparr>fitted := Some (Arr2 [[1]], Arr2 [[1]])\<rparr>)
       = hp_random_state toy_tree
   \<and> estimate_variance memo_lib (toy_tree\<lparr>fitted := None\<rparr>) toy_x_train toy_y_train
        toy_x_valid 0
       = Inr (0, toy_tree\<lparr>fitted := Some (Arr2 [[1]], Arr2 [[1]])\<rparr>, 100)"
proof -
  have h: "estimate_variance memo_lib toy_tree toy_x_train toy_y_train toy_x_valid 0
     = Inr (0, toy_tree\<lparr>fitted := Some (Arr2 [[1]], Arr2 [[1]])\<rparr>, 100)"
    using toy_estimate_variance [of toy_tree 0] by simp
  note c = estimate_variance_refits [OF h, of None]
  show ?thesis by (rule conjI [OF h c])
qed

text \<open>
  C9, as stated, fails: a tree fitted on the toy train set, as Algorithm 2 fits it
  before the call, comes back from \<open>estimate_variance\<close> with another fitted state.
\<close>

theorem estimate_variance_refits_counterexample:
  "fit memo_lib (DecisionTreeRegressor 1 (Some 2)) (array_df toy_x_train)
       (array_series toy_y_train) 0 = Inr (toy_tree, 0)
   \<and> estimate_variance memo_lib toy_tree toy_x_train toy_y_train toy_x_valid 0
       = Inr (0, toy_tree\<lparr>fitted := Some (Arr2 [[1]], Arr2 [[1]])\<rparr>, 100)
   \<and> fitted (toy_tree\<lparr>fitted := Some (Arr2 [[1]], Arr2 [[1]])\<rparr>) \<noteq> fitted toy_tree"
proof -
  have "estimate_variance memo_lib toy_tree toy_x_train toy_y_train toy_x_valid 0
     = Inr (0, toy_tree\<lparr>fitted := Some (Arr2 [[1]], Arr2 [[1]])\<rparr>, 100)"
    using toy_estimate_variance [of toy_tree 0] by simp
  then show ?thesis
    by (simp add: toy_tree_def fit_def DecisionTreeRegressor_def memo_lib_simps
        array_df_def array_series_def toy_x_train_def toy_y_train_def)
qed

text \<open>
  C1. \<open>estimate_variance\<close> is to fit the model on resamples of the paired rows of
  \<open>x_train\<close> and \<open>y_train\<close>. The code does not: \<open>y_train = np.array(x_train)\<close>
  replaces the labels by the features, so rewriting every label by any function
  \<open>relabel\<close> changes nothing of what the function answers; and on the toy train set,
  with labels \<open>5\<close> and \<open>7\<close>, the learner that memorises its training data comes
  back fitted on the feature row \<open>[1]\<close> as its label.
\<close>

theorem estimate_variance_ignores_labels:
  "estimate_variance L model x_train (y_train\<lparr>s_values := map relabel (s_values y_train)\<rparr>)
       x_valid g
     = estimate_variance L model x_train y_train x_valid g
   \<and> estimate_variance memo_lib toy_tree toy_x_train toy_y_train toy_x_valid 0
       = Inr (0, toy_tree\<lparr>fitted := Some (Arr2 [[1]], Arr2 [[1]])\<rparr>, 100)"
  using toy_estimate_variance [of toy_tree 0]
  by (simp add: estimate_variance_def len_series_def)

subsection \<open>The dataset of \<open>gen_data\<close>\<close>

lemma rng_after_add: "rng_after L a (rng_after L b g) = rng_after L (b + a) g"
  by (induction b arbitrary: g) auto

lemma draw_no_shift: "draw_no L (rng_after L b g) k = draw_no L g (b + k)"
  by (simp add: draw_no_def rng_after_add)

lemma rng_after_Suc: "rng_after L (Suc k) g = snd (np_random_random L (rng_after L k g))"
  using rng_after_add [of L 1 k g] by simp

lemma draw_no_Suc: "draw_no L g (Suc k) = draw_no L (snd (np_random_random L g)) k"
  by (simp add: draw_no_def)

lemma draw_list_eq:
  "draw_list L n g = (map (draw_no L g) [0 ..< n], rng_after L n g)"
proof (induction n arbitrary: g)
  case 0
  then show ?case by simp
next
  case (Suc n)
  have "draw_no L g 0 = fst (np_random_random L g)" by (simp add: draw_no_def)
  then show ?case
    by (simp add: Suc.IH map_upt_Suc draw_no_Suc case_prod_beta del: upt_Suc)
qed

lemma gen_row_eq: "gen_row L nf g = (row_of L nf g, rng_after L (Suc nf) g)"
  by (simp add: gen_row_def draw_list_eq row_of_def draw_no_def rng_after_Suc
      split: prod.splits del: rng_after.simps)

lemma gen_rows_eq:
  "gen_rows L n nf data g
     = (data @ map (\<lambda>r. row_of L nf (rng_after L (r * Suc nf) g)) [0 ..< n],
        rng_after L (n * Suc nf) g)"
proof (induction n arbitrary: data g)
  case 0
  then show ?case by simp
next
  case (Suc n)
  have a: "rng_after L (r * Suc nf) (rng_after L (Suc nf) g) = rng_after L (Suc r * Suc nf) g" for r
    by (simp add: rng_after_add ac_simps del: rng_after.simps)
  have "gen_rows L (Suc n) nf data g
      = gen_rows L n nf (data @ [row_of L nf g]) (rng_after L (Suc nf) g)"
    by (simp add: gen_row_eq del: rng_after.simps)
  also have "\<dots> = ((data @ [row_of L nf g])
        @ map (\<lambda>r. row_of L nf (rng_after L (Suc r * Suc nf) g)) [0 ..< n],
        rng_after L (Suc n * Suc nf) g)"
    by (simp only: Suc.IH a)
  also have "(data @ [row_of L nf g])
        @ map (\<lambda>r. row_of L nf (rng_after L (Suc r * Suc nf) g)) [0 ..< n]
      = data @ map (\<lambda>r. row_of L nf (rng_after L (r * Suc nf) g)) [0 ..< Suc n]"
    by (simp add: map_upt_Suc del: upt_Suc rng_after.simps(2) mult_Suc)
  finally show ?case .
qed

lemma digit_char_val: "d < 10 \<Longrightarrow> of_char (digit_char d) - 48 = d"
  by (simp add: digit_char_def)

lemma dec_val_str_nat: "dec_val (str_nat n) = n"
proof (induction n rule: str_nat.induct)
  case (1 n)
  show ?case
  proof (cases "n < 10")
    case True
    then show ?thesis by (simp add: str_nat.simps [of n] digit_char_val)
  next
    case False
    with 1 have "dec_val (str_nat (n div 10)) = n div 10" by simp
    with False show ?thesis
      by (simp add: str_nat.simps [of n] digit_char_val)
  qed
qed

lemma str_nat_inj: "str_nat a = str_nat b \<Longrightarrow> a = b"
  using dec_val_str_nat by metis

lemma feature_names_distinct:
  "distinct (map (\<lambda>i. ''x'' @ str_nat i) [0 ..< n] @ [''y''])"
proof -
  have "inj_on (\<lambda>i. ''x'' @ str_nat i) (set [0 ..< n])"
    by (rule inj_onI) (auto dest: str_nat_inj)
  then have "distinct (map (\<lambda>i. ''x'' @ str_nat i) [0 ..< n])"
    by (simp add: distinct_map)
  then show ?thesis by auto
qed

lemma map_err_map:
  "(\<And>x. x \<in> set xs \<Longrightarrow> f (h x) = Inr (k x)) \<Longrightarrow> map_err f (map h xs) = Inr (map k xs)"
  by (induction xs) auto

lemma col_pos_nth:
  "distinct cols \<Longrightarrow> i < length cols \<Longrightarrow> col_pos cols (cols ! i) = Inr (int i)"
proof (induction cols arbitrary: i)
  case Nil
  then show ?case by simp
next
  case (Cons c cols)
  show ?case
  proof (cases i)
    case 0
    then show ?thesis by simp
  next
    case (Suc k)
    with Cons.prems have "c \<noteq> cols ! k" "k < length cols" "distinct cols" by auto
    with Cons.IH [of k] Suc show ?thesis by simp
  qed
qed

lemma py_index_nat: "i < length xs \<Longrightarrow> py_index xs (int i) = Inr (xs ! i)"
  by (simp add: py_index_def)

lemma map_nth_take: "k \<le> length xs \<Longrightarrow> map ((!) xs) [0 ..< k] = take k xs"
  by (rule nth_equalityI) auto

lemma select_columns:
  assumes "distinct (names @ extra)"
    and "list_all (\<lambda>row. length row = length (names @ extra)) rows"
  shows "df_getitem_list \<lparr>df_index = idx, df_columns = names @ extra, df_rows = rows\<rparr> names
     = Inr \<lparr>df_index = idx, df_columns = names, df_rows = map (take (length names)) rows\<rparr>"
proof -
  let ?n = "length names"
  have "map_err (col_pos (names @ extra)) (map ((!) (names @ extra)) [0 ..< ?n])
      = Inr (map int [0 ..< ?n])"
    using assms(1) by (intro map_err_map col_pos_nth) auto
  moreover have "map ((!) (names @ extra)) [0 ..< ?n] = names"
    by (simp add: map_nth_take)
  ultimately have ps: "map_err (col_pos (names @ extra)) names = Inr (map int [0 ..< ?n])"
    by simp
  have "map_err (\<lambda>row. map_err (py_index row) (map int [0 ..< ?n])) (map id rows)
      = Inr (map (take ?n) rows)"
  proof (rule map_err_map)
    fix row assume "row \<in> set rows"
    with assms(2) have l: "length row = ?n + length extra" by (auto simp: list_all_iff)
    then have "map_err (py_index row) (map int [0 ..< ?n]) = Inr (map ((!) row) [0 ..< ?n])"
      by (intro map_err_map py_index_nat) auto
    with l show "map_err (py_index (id row)) (map int [0 ..< ?n]) = Inr (take ?n row)"
      by (simp add: map_nth_take)
  qed
  with ps show ?thesis by (simp add: df_getitem_list_def)
qed

lemma select_last_column:
  assumes "distinct (names @ [c])"
    and "list_all (\<lambda>row. length row = length (names @ [c])) rows"
  shows "df_getitem \<lparr>df_index = idx, df_columns = names @ [c], df_rows = rows\<rparr> c
     = Inr \<lparr>s_index = idx, s_values = map (\<lambda>row. row ! length names) rows\<rparr>"
proof -
  let ?n = "length names"
  have "col_pos (names @ [c]) ((names @ [c]) ! ?n) = Inr (int ?n)"
    using assms(1) by (intro col_pos_nth) auto
  then have p: "col_pos (names @ [c]) c = Inr (int ?n)" by simp
  have "map_err (\<lambda>row. py_index row (int ?n)) (map id rows)
      = Inr (map (\<lambda>row. row ! ?n) rows)"
  proof (rule map_err_map)
    fix row assume "row \<in> set rows"
    with assms(2) have "?n < length row" by (auto simp: list_all_iff)
    then show "py_index (id row) (int ?n) = Inr (row ! ?n)" by (simp add: py_index_nat)
  qed
  with p show ?thesis by (simp add: df_getitem_def)
qed

lemma length_row_of: "length (row_of L nf g) = Suc nf"
  by (simp add: row_of_def)

lemma dataset_rows:
  "list_all (\<lambda>row. length row = length (feature_names @ [''y''])) (dataset L seed)"
  by (simp add: list_all_iff dataset_def feature_names_def length_row_of)

lemma np_seed_ok: "0 \<le> seed \<Longrightarrow> seed < 2 ^ 32 \<Longrightarrow> np_seed L seed = Inr (np_random_seed L seed)"
  by (simp add: np_seed_def)

lemma np_seed_refuses: "seed < 0 \<or> 2 ^ 32 \<le> seed \<Longrightarrow> np_seed L seed = Inl ValueError"
  by (auto simp: np_seed_def)

lemma gen_full_df_refuses:
  "seed < 0 \<or> 2 ^ 32 \<le> seed \<Longrightarrow> gen_full_df L seed = Inl ValueError"
  by (simp add: gen_full_df_def np_seed_refuses)

lemma gen_data_refuses:
  "seed < 0 \<or> 2 ^ 32 \<le> seed \<Longrightarrow> gen_data L seed g = Inl ValueError"
  by (simp add: gen_data_def gen_full_df_refuses)

lemma gen_full_df_eq:
  assumes "0 \<le> seed" and "seed < 2 ^ 32"
  shows "gen_full_df L seed
     = Inr (feature_names,
            \<lparr>df_index = [0 ..< 500], df_columns = feature_names @ [''y''],
             df_rows = dataset L seed\<rparr>,
            rng_after L (500 * 101) (np_random_seed L seed))"
proof -
  have n: "Suc 100 = 101" by simp
  have gr: "gen_rows L 500 100 [] (np_random_seed L seed)
      = (dataset L seed, rng_after L (500 * 101) (np_random_seed L seed))"
    by (simp only: gen_rows_eq dataset_def append_Nil n)
  have len: "length (dataset L seed) = 500" by (simp add: dataset_def)
  have df: "DataFrame (dataset L seed) (feature_names @ [''y''])
      = Inr \<lparr>df_index = [0 ..< 500], df_columns = feature_names @ [''y''],
             df_rows = dataset L seed\<rparr>"
    using dataset_rows [of L seed] by (simp only: DataFrame_def len if_True)
  show ?thesis
    unfolding gen_full_df_def np_seed_ok [OF assms] Let_def feature_names_def [symmetric]
    by (simp only: gr df prod.case sum.case)
qed

lemma sum_first_three: "sum_list (map f [0 ..< 3]) = f 0 + f 1 + f (2::nat)"
  by (simp add: numeral_3_eq_3 numeral_2_eq_2 add.assoc)

lemma row_of_entries:
  "j < 100 \<Longrightarrow> row_of L 100 g ! j = draw_no L g j"
  "row_of L 100 g ! 100
     = row_of L 100 g ! 0 + row_of L 100 g ! 1 + row_of L 100 g ! 2 + (draw_no L g 100)\<^sup>2"
proof -
  show a: "row_of L 100 g ! j = draw_no L g j" if "j < 100" for j
    using that by (simp add: row_of_def nth_append)
  have "take 3 (map (draw_no L g) [0 ..< 100]) = map (draw_no L g) [0 ..< 3]"
    by (simp add: take_map)
  then have "sum_list (take 3 (map (draw_no L g) [0 ..< 100]))
      = draw_no L g 0 + draw_no L g 1 + draw_no L g 2"
    by (simp only: sum_first_three)
  moreover have "row_of L 100 g ! 100
      = sum_list (take 3 (map (draw_no L g) [0 ..< 100])) + (draw_no L g 100)\<^sup>2"
    by (simp add: row_of_def nth_append)
  ultimately show "row_of L 100 g ! 100
     = row_of L 100 g ! 0 + row_of L 100 g ! 1 + row_of L 100 g ! 2 + (draw_no L g 100)\<^sup>2"
    by (simp only: a [of 0] a [of 1] a [of 2])
qed

lemma memo_rng_after: "rng_after memo_lib k g = g + k"
  by (induction k arbitrary: g) (auto simp: memo_lib_def)

lemma memo_draw_no: "draw_no memo_lib g k = 1 / (real (g + k) + 2)"
  by (simp add: draw_no_def memo_rng_after) (simp add: memo_lib_def)

text \<open>
  C5, as amended. For every seed that \<open>np.random.seed\<close> accepts, from \<open>0\<close> to
  \<open>2**32 - 1\<close>, the dataset \<open>full_df\<close> of \<open>gen_data\<close> has \<open>500\<close> rows and the
  columns \<open>x0, ..., x99, y\<close>, all distinct. Every feature is a call of its own of
  \<open>np.random.random\<close> on the seeded generator: feature \<open>j\<close> of row \<open>r\<close> is draw
  number \<open>101 * r + j\<close>. The target of a row is \<open>x0 + x1 + x2\<close> plus the square of
  the next draw, number \<open>101 * r + 100\<close>; no other feature enters it. The features
  \<open>full_df[features]\<close> are the first \<open>100\<close> entries of the rows, the goal
  \<open>full_df['y']\<close> their last. (That the draws are independent and uniform is what
  NumPy promises of its generator, and no statement about this code.)
\<close>

theorem gen_data_dataset:
  assumes "0 \<le> seed" and "seed < 2 ^ 32"
  shows "\<exists>data g1.
      gen_full_df L seed
        = Inr (feature_names,
               \<lparr>df_index = [0 ..< 500], df_columns = feature_names @ [''y''], df_rows = data\<rparr>,
               g1)
    \<and> length data = 500
    \<and> feature_names = map (\<lambda>i. ''x'' @ str_nat i) [0 ..< 100]
    \<and> distinct (feature_names @ [''y''])
    \<and> (\<forall>r < 500. length (data ! r) = 101
          \<and> (\<forall>j < 100. data ! r ! j = draw_no L (np_random_seed L seed) (101 * r + j))
          \<and> data ! r ! 100
              = data ! r ! 0 + data ! r ! 1 + data ! r ! 2
                + (draw_no L (np_random_seed L seed) (101 * r + 100))\<^sup>2)
    \<and> df_getitem_list
          \<lparr>df_index = [0 ..< 500], df_columns = feature_names @ [''y''], df_rows = data\<rparr>
          feature_names
        = Inr \<lparr>df_index = [0 ..< 500], df_columns = feature_names,
               df_rows = map (take 100) data\<rparr>
    \<and> df_getitem
          \<lparr>df_index = [0 ..< 500], df_columns = feature_names @ [''y''], df_rows = data\<rparr> ''y''
        = Inr \<lparr>s_index = [0 ..< 500], s_values = map (\<lambda>row. row ! 100) data\<rparr>"
proof -
  let ?g0 = "np_random_seed L seed"
  have d: "distinct (feature_names @ [''y''])"
    unfolding feature_names_def by (rule feature_names_distinct)
  note la = dataset_rows [of L seed]
  have rows: "\<forall>r < 500. length (dataset L seed ! r) = 101
          \<and> (\<forall>j < 100. dataset L seed ! r ! j = draw_no L ?g0 (101 * r + j))
          \<and> dataset L seed ! r ! 100
              = dataset L seed ! r ! 0 + dataset L seed ! r ! 1 + dataset L seed ! r ! 2
                + (draw_no L ?g0 (101 * r + 100))\<^sup>2"
  proof (intro allI impI)
    fix r :: nat assume r: "r < 500"
    then have e: "dataset L seed ! r = row_of L 100 (rng_after L (r * 101) ?g0)"
      by (simp add: dataset_def)
    show "length (dataset L seed ! r) = 101
          \<and> (\<forall>j < 100. dataset L seed ! r ! j = draw_no L ?g0 (101 * r + j))
          \<and> dataset L seed ! r ! 100
              = dataset L seed ! r ! 0 + dataset L seed ! r ! 1 + dataset L seed ! r ! 2
                + (draw_no L ?g0 (101 * r + 100))\<^sup>2"
      unfolding e
      using row_of_entries(2) [of L "rng_after L (r * 101) ?g0"]
      by (simp add: length_row_of row_of_entries(1) draw_no_shift mult.commute)
  qed
  have sel: "df_getitem_list
          \<lparr>df_index = [0 ..< 500], df_columns = feature_names @ [''y''], df_rows = dataset L seed\<rparr>
          feature_names
        = Inr \<lparr>df_index = [0 ..< 500], df_columns = feature_names,
               df_rows = map (take 100) (dataset L seed)\<rparr>"
    using select_columns [OF d la, of "[0 ..< 500]"] by (simp add: feature_names_def)
  have goal: "df_getitem
          \<lparr>df_index = [0 ..< 500], df_columns = feature_names @ [''y''], df_rows = dataset L seed\<rparr> ''y''
        = Inr \<lparr>s_index = [0 ..< 500], s_values = map (\<lambda>row. row ! 100) (dataset L seed)\<rparr>"
    using select_last_column [OF d la, of "[0 ..< 500]"] by (simp add: feature_names_def)
  have "length (dataset L seed) = 500" by (simp add: dataset_def)
  with gen_full_df_eq [OF assms, of L] d rows sel goal show ?thesis
    by (intro exI [of _ "dataset L seed"] exI [of _ "rng_after L (500 * 101) ?g0"])
       (simp add: feature_names_def)
qed

theorem gen_data_dataset_witness:
  "(0::int) \<le> 42 \<and> (42::int) < 2 ^ 32
   \<and> (\<exists>data g1.
      gen_full_df memo_lib 42
        = Inr (feature_names,
               \<lparr>df_index = [0 ..< 500], df_columns = feature_names @ [''y''], df_rows = data\<rparr>,
               g1)
    \<and> length data = 500
    \<and> (1::nat) < 500 \<and> (5::nat) < 100
    \<and> length (data ! 1) = 101
    \<and> data ! 1 ! 5 = draw_no memo_lib (np_random_seed memo_lib 42) (101 * 1 + 5)
    \<and> data ! 1 ! 5 = 1 / 150
    \<and> data ! 1 ! 100
        = data ! 1 ! 0 + data ! 1 ! 1 + data ! 1 ! 2
          + (draw_no memo_lib (np_random_seed memo_lib 42) (101 * 1 + 100))\<^sup>2)"
proof -
  have s1: "(0::int) \<le> 42" and s2: "(42::int) < 2 ^ 32" by simp_all
  from gen_data_dataset [OF s1 s2, of memo_lib] obtain data g1 where
    full: "gen_full_df memo_lib 42
        = Inr (feature_names,
               \<lparr>df_index = [0 ..< 500], df_columns = feature_names @ [''y''], df_rows = data\<rparr>,
               g1)"
    and len: "length data = 500"
    and rows: "\<forall>r < 500. length (data ! r) = 101
          \<and> (\<forall>j < 100. data ! r ! j = draw_no memo_lib (np_random_seed memo_lib 42) (101 * r + j))
          \<and> data ! r ! 100
              = data ! r ! 0 + data ! r ! 1 + data ! r ! 2
                + (draw_no memo_lib (np_random_seed memo_lib 42) (101 * r + 100))\<^sup>2"
    by blast
  have r: "(1::nat) < 500" and j: "(5::nat) < 100" by simp_all
  from rows r have row: "length (data ! 1) = 101
          \<and> (\<forall>j < 100. data ! 1 ! j = draw_no memo_lib (np_random_seed memo_lib 42) (101 * 1 + j))
          \<and> data ! 1 ! 100
              = data ! 1 ! 0 + data ! 1 ! 1 + data ! 1 ! 2
                + (draw_no memo_lib (np_random_seed memo_lib 42) (101 * 1 + 100))\<^sup>2"
    by blast
  with j have e: "data ! 1 ! 5 = draw_no memo_lib (np_random_seed memo_lib 42) (101 * 1 + 5)"
    by blast
  have "np_random_seed memo_lib 42 = 42" by (simp add: memo_lib_def)
  with e have v: "data ! 1 ! 5 = 1 / 150" by (simp add: memo_draw_no)
  from s1 s2 full len r j row e v show ?thesis by blast
qed

text \<open>
  C5, as stated, fails: on the seed \<open>-1\<close> line 51 raises \<open>ValueError\<close>, and
  \<open>gen_data\<close> produces nothing.
\<close>

theorem gen_data_dataset_counterexample:
  "gen_full_df memo_lib (- 1) = Inl ValueError \<and> gen_data memo_lib (- 1) 0 = Inl ValueError"
  using gen_full_df_refuses [of "- 1" memo_lib] gen_data_refuses [of "- 1" memo_lib 0] by simp

subsection \<open>The three partitions\<close>

lemma features_eq:
  "df_getitem_list
     \<lparr>df_index = [0 ..< 500], df_columns = feature_names @ [''y''], df_rows = dataset L seed\<rparr>
     feature_names
   = Inr \<lparr>df_index = [0 ..< 500], df_columns = feature_names,
          df_rows = map (take 100) (dataset L seed)\<rparr>"
proof -
  have d: "distinct (feature_names @ [''y''])"
    unfolding feature_names_def by (rule feature_names_distinct)
  show ?thesis
    using select_columns [OF d dataset_rows, of "[0 ..< 500]" L seed]
    by (simp add: feature_names_def)
qed

lemma goal_eq:
  "df_getitem
     \<lparr>df_index = [0 ..< 500], df_columns = feature_names @ [''y''], df_rows = dataset L seed\<rparr>
     ''y''
   = Inr \<lparr>s_index = [0 ..< 500], s_values = map (\<lambda>row. row ! 100) (dataset L seed)\<rparr>"
proof -
  have d: "distinct (feature_names @ [''y''])"
    unfolding feature_names_def by (rule feature_names_distinct)
  show ?thesis
    using select_last_column [OF d dataset_rows, of "[0 ..< 500]" L seed]
    by (simp add: feature_names_def)
qed

lemma map_err_nth:
  "\<forall>p \<in> set ps. p < length xs \<Longrightarrow>
   map_err (py_index xs) (map int ps) = Inr (map ((!) xs) ps)"
  by (intro map_err_map py_index_nat) auto

lemma df_iloc_ok:
  assumes "length (df_index df) = length (df_rows df)"
    and "\<forall>p \<in> set ps. p < length (df_rows df)"
  shows "df_iloc df ps
     = Inr \<lparr>df_index = map ((!) (df_index df)) ps, df_columns = df_columns df,
            df_rows = map ((!) (df_rows df)) ps\<rparr>"
  using assms by (simp add: df_iloc_def map_err_nth)

lemma s_iloc_ok:
  assumes "length (s_index s) = length (s_values s)"
    and "\<forall>p \<in> set ps. p < length (s_values s)"
  shows "s_iloc s ps
     = Inr \<lparr>s_index = map ((!) (s_index s)) ps, s_values = map ((!) (s_values s)) ps\<rparr>"
  using assms by (simp add: s_iloc_def map_err_nth)

lemma split_contract_D:
  assumes "split_contract sp" and "sp n t seed = (train, test)"
  shows "distinct (train @ test)" and "set (train @ test) = {..<n}"
  using assms unfolding split_contract_def by (metis fst_conv snd_conv)+

lemma train_test_split_ok:
  assumes c: "split_contract (split_positions L)"
    and ix: "length (df_index x) = length (df_rows x)"
    and iy: "length (s_index y) = length (s_values y)"
    and xy: "length (df_rows x) = length (s_values y)"
    and sp: "split_positions L (length (df_rows x)) t seed = (train, test)"
  shows "train_test_split L x y t seed calls
     = Inr ((\<lparr>df_index = map ((!) (df_index x)) train, df_columns = df_columns x,
               df_rows = map ((!) (df_rows x)) train\<rparr>,
             \<lparr>df_index = map ((!) (df_index x)) test, df_columns = df_columns x,
               df_rows = map ((!) (df_rows x)) test\<rparr>,
             \<lparr>s_index = map ((!) (s_index y)) train, s_values = map ((!) (s_values y)) train\<rparr>,
             \<lparr>s_index = map ((!) (s_index y)) test, s_values = map ((!) (s_values y)) test\<rparr>),
            calls @ [(length (df_rows x), t, seed)])"
proof -
  from split_contract_D(2) [OF c sp]
  have tr: "\<forall>p \<in> set train. p < length (df_rows x)"
    and te: "\<forall>p \<in> set test. p < length (df_rows x)" by auto
  from tr te xy have tr': "\<forall>p \<in> set train. p < length (s_values y)"
    and te': "\<forall>p \<in> set test. p < length (s_values y)" by auto
  show ?thesis
    using xy sp
    by (simp add: train_test_split_def len_df_def len_series_def
        df_iloc_ok [OF ix tr] df_iloc_ok [OF ix te] s_iloc_ok [OF iy tr'] s_iloc_ok [OF iy te'])
qed

lemma nth_upt_id: "\<forall>p \<in> set ps. p < n \<Longrightarrow> map ((!) [0 ..< n]) ps = ps"
  by (induction ps) auto

lemma map_nth_nth:
  "\<forall>p \<in> set ps. p < length qs \<Longrightarrow> map ((!) (map ((!) xs) qs)) ps = map ((!) xs) (map ((!) qs) ps)"
  by (induction ps) auto

lemma two_splits_partition:
  assumes d1: "distinct (tr1 @ te1)" and s1: "set (tr1 @ te1) = {..<n}"
    and d2: "distinct (tr2 @ te2)" and s2: "set (tr2 @ te2) = {..<length tr1}"
  shows "distinct (map ((!) tr1) tr2 @ map ((!) tr1) te2 @ te1)"
    and "set (map ((!) tr1) tr2 @ map ((!) tr1) te2 @ te1) = {..<n}"
proof -
  from d1 have dt: "distinct tr1" and disj: "set tr1 \<inter> set te1 = {}" and dte: "distinct te1"
    by auto
  have inj: "inj_on ((!) tr1) (set (tr2 @ te2))"
    using dt s2 by (intro inj_on_nth) auto
  have dm: "distinct (map ((!) tr1) (tr2 @ te2))"
    unfolding distinct_map using d2 inj by blast
  have "set (map ((!) tr1) (tr2 @ te2)) = (!) tr1 ` {..<length tr1}"
    using s2 by (simp only: set_map)
  also have "\<dots> = set tr1" by (auto simp: set_conv_nth)
  finally have sm: "set (map ((!) tr1) (tr2 @ te2)) = set tr1" .
  from dm dte sm disj have "distinct (map ((!) tr1) (tr2 @ te2) @ te1)"
    by (simp only: distinct_append)
  then show "distinct (map ((!) tr1) tr2 @ map ((!) tr1) te2 @ te1)" by simp
  have "set (map ((!) tr1) (tr2 @ te2) @ te1) = set tr1 \<union> set te1"
    using sm by (simp only: set_append)
  with s1 show "set (map ((!) tr1) tr2 @ map ((!) tr1) te2 @ te1) = {..<n}" by simp
qed

lemma gen_data_two_splits:
  assumes c: "split_contract (split_positions L)"
    and s1: "0 \<le> seed" and s2: "seed < 2 ^ 32"
  shows "\<exists>x_train x_valid x_test y_train y_valid y_test g1 names full_df features goal
            x_not_test y_not_test.
      gen_data L seed g
        = Inr ((x_train, x_valid, x_test, y_train, y_valid, y_test), g1,
               [(500, 1 / 2, seed), (len_df x_not_test, 1 / 5, seed)])
    \<and> distinct (df_index x_train @ df_index x_valid @ df_index x_test)
    \<and> set (df_index x_train @ df_index x_valid @ df_index x_test) = {..<500}
    \<and> s_index y_train = df_index x_train \<and> s_index y_valid = df_index x_valid
    \<and> s_index y_test = df_index x_test
    \<and> gen_full_df L seed = Inr (names, full_df, g1)
    \<and> df_index full_df = [0 ..< 500]
    \<and> df_rows x_train = map (\<lambda>i. take 100 (df_rows full_df ! i)) (df_index x_train)
    \<and> df_rows x_valid = map (\<lambda>i. take 100 (df_rows full_df ! i)) (df_index x_valid)
    \<and> df_rows x_test = map (\<lambda>i. take 100 (df_rows full_df ! i)) (df_index x_test)
    \<and> s_values y_train = map (\<lambda>i. df_rows full_df ! i ! 100) (df_index x_train)
    \<and> s_values y_valid = map (\<lambda>i. df_rows full_df ! i ! 100) (df_index x_valid)
    \<and> s_values y_test = map (\<lambda>i. df_rows full_df ! i ! 100) (df_index x_test)
    \<and> df_getitem_list full_df names = Inr features
    \<and> df_getitem full_df ''y'' = Inr goal
    \<and> train_test_split L features goal (1 / 2) seed []
        = Inr ((x_not_test, x_test, y_not_test, y_test), [(500, 1 / 2, seed)])
    \<and> train_test_split L x_not_test y_not_test (1 / 5) seed [(500, 1 / 2, seed)]
        = Inr ((x_train, x_valid, y_train, y_valid),
               [(500, 1 / 2, seed), (len_df x_not_test, 1 / 5, seed)])
    \<and> len_df x_not_test = length (fst (split_positions L 500 (1 / 2) seed))"
proof -
  define D where "D = dataset L seed"
  define F where "F = map (take 100) D"
  define G where "G = map (\<lambda>row. row ! 100) D"
  define full_df where
    "full_df = \<lparr>df_index = [0 ..< 500], df_columns = feature_names @ [''y''], df_rows = D\<rparr>"
  define features where
    "features = \<lparr>df_index = [0 ..< 500], df_columns = feature_names, df_rows = F\<rparr>"
  define goal where "goal = \<lparr>s_index = [0 ..< 500], s_values = G\<rparr>"
  define g1 where "g1 = rng_after L (500 * 101) (np_random_seed L seed)"
  have lD: "length D = 500" by (simp add: D_def dataset_def)
  then have lF: "length F = 500" and lG: "length G = 500" by (simp_all add: F_def G_def)
  obtain tr1 te1 where sp1: "split_positions L 500 (1 / 2) seed = (tr1, te1)"
    by (cases "split_positions L 500 (1 / 2) seed")
  note p1 = split_contract_D [OF c sp1]
  from p1(2) have r1: "\<forall>p \<in> set tr1. p < 500" "\<forall>p \<in> set te1. p < 500" by auto
  define x_not_test where
    "x_not_test = \<lparr>df_index = tr1, df_columns = feature_names, df_rows = map ((!) F) tr1\<rparr>"
  define x_test where
    "x_test = \<lparr>df_index = te1, df_columns = feature_names, df_rows = map ((!) F) te1\<rparr>"
  define y_not_test where "y_not_test = \<lparr>s_index = tr1, s_values = map ((!) G) tr1\<rparr>"
  define y_test where "y_test = \<lparr>s_index = te1, s_values = map ((!) G) te1\<rparr>"
  have sp1': "split_positions L (length (df_rows features)) (1 / 2) seed = (tr1, te1)"
    using sp1 by (simp add: features_def lF)
  have t1: "train_test_split L features goal (1 / 2) seed []
      = Inr ((x_not_test, x_test, y_not_test, y_test), [(500, 1 / 2, seed)])"
    using train_test_split_ok [OF c _ _ _ sp1', of goal "[]"] r1
    by (simp add: features_def goal_def lF lG nth_upt_id
        x_not_test_def x_test_def y_not_test_def y_test_def)
  obtain tr2 te2 where sp2: "split_positions L (length tr1) (1 / 5) seed = (tr2, te2)"
    by (cases "split_positions L (length tr1) (1 / 5) seed")
  note p2 = split_contract_D [OF c sp2]
  from p2(2) have r2: "\<forall>p \<in> set tr2. p < length tr1" "\<forall>p \<in> set te2. p < length tr1" by auto
  define x_train where
    "x_train = \<lparr>df_index = map ((!) tr1) tr2, df_columns = feature_names,
                df_rows = map ((!) F) (map ((!) tr1) tr2)\<rparr>"
  define x_valid where
    "x_valid = \<lparr>df_index = map ((!) tr1) te2, df_columns = feature_names,
                df_rows = map ((!) F) (map ((!) tr1) te2)\<rparr>"
  define y_train where
    "y_train = \<lparr>s_index = map ((!) tr1) tr2, s_values = map ((!) G) (map ((!) tr1) tr2)\<rparr>"
  define y_valid where
    "y_valid = \<lparr>s_index = map ((!) tr1) te2, s_values = map ((!) G) (map ((!) tr1) te2)\<rparr>"
  have sp2': "split_positions L (length (df_rows x_not_test)) (1 / 5) seed = (tr2, te2)"
    using sp2 by (simp add: x_not_test_def)
  have ln: "len_df x_not_test = length tr1" by (simp add: x_not_test_def len_df_def)
  have t2: "train_test_split L x_not_test y_not_test (1 / 5) seed [(500, 1 / 2, seed)]
      = Inr ((x_train, x_valid, y_train, y_valid),
             [(500, 1 / 2, seed), (len_df x_not_test, 1 / 5, seed)])"
    using train_test_split_ok [OF c _ _ _ sp2', of y_not_test "[(500, 1 / 2, seed)]"]
    by (simp add: x_not_test_def y_not_test_def map_nth_nth [OF r2(1)] map_nth_nth [OF r2(2)]
        x_train_def x_valid_def y_train_def y_valid_def len_df_def)
  have lf: "len_df x_not_test = length (fst (split_positions L 500 (1 / 2) seed))"
    using ln sp1 by simp
  have full: "gen_full_df L seed = Inr (feature_names, full_df, g1)"
    by (simp only: gen_full_df_eq [OF s1 s2] full_df_def D_def g1_def)
  have fe: "df_getitem_list full_df feature_names = Inr features"
    by (simp only: features_eq full_df_def features_def D_def F_def)
  have ge: "df_getitem full_df ''y'' = Inr goal"
    by (simp only: goal_eq full_df_def goal_def D_def G_def)
  have gd: "gen_data L seed g
      = Inr ((x_train, x_valid, x_test, y_train, y_valid, y_test), g1,
             [(500, 1 / 2, seed), (len_df x_not_test, 1 / 5, seed)])"
    by (simp add: gen_data_def full fe ge t1 t2)
  note part = two_splits_partition [OF p1 p2]
  have rowsF: "map ((!) F) ps = map (\<lambda>i. take 100 (D ! i)) ps" if "\<forall>p \<in> set ps. p < 500" for ps
    using that lD by (simp add: F_def)
  have rowsG: "map ((!) G) ps = map (\<lambda>i. D ! i ! 100) ps" if "\<forall>p \<in> set ps. p < 500" for ps
    using that lD by (simp add: G_def)
  have in1: "\<forall>p \<in> set (map ((!) tr1) tr2). p < 500" "\<forall>p \<in> set (map ((!) tr1) te2). p < 500"
    using part(2) by auto
  have "distinct (df_index x_train @ df_index x_valid @ df_index x_test)"
    using part(1) by (simp add: x_train_def x_valid_def x_test_def)
  moreover have "set (df_index x_train @ df_index x_valid @ df_index x_test) = {..<500}"
    using part(2) by (simp add: x_train_def x_valid_def x_test_def)
  moreover have "s_index y_train = df_index x_train \<and> s_index y_valid = df_index x_valid
    \<and> s_index y_test = df_index x_test"
    by (simp add: x_train_def x_valid_def x_test_def y_train_def y_valid_def y_test_def)
  moreover have "df_index full_df = [0 ..< 500]" by (simp add: full_df_def)
  moreover have "df_rows x_train = map (\<lambda>i. take 100 (df_rows full_df ! i)) (df_index x_train)"
    "df_rows x_valid = map (\<lambda>i. take 100 (df_rows full_df ! i)) (df_index x_valid)"
    "df_rows x_test = map (\<lambda>i. take 100 (df_rows full_df ! i)) (df_index x_test)"
    "s_values y_train = map (\<lambda>i. df_rows full_df ! i ! 100) (df_index x_train)"
    "s_values y_valid = map (\<lambda>i. df_rows full_df ! i ! 100) (df_index x_valid)"
    "s_values y_test = map (\<lambda>i. df_rows full_df ! i ! 100) (df_index x_test)"
    using rowsF [OF in1(1)] rowsF [OF in1(2)] rowsF [OF r1(2)]
      rowsG [OF in1(1)] rowsG [OF in1(2)] rowsG [OF r1(2)]
    by (simp_all add: x_train_def x_valid_def x_test_def y_train_def y_valid_def y_test_def
        full_df_def)
  ultimately show ?thesis using gd full fe ge t1 t2 lf by blast
qed

lemma memo_split_contract: "split_contract (split_positions memo_lib)"
proof -
  have halves: "distinct (drop k [0 ..< n] @ take k [0 ..< n])
      \<and> set (drop k [0 ..< n] @ take k [0 ..< n]) = {..<n}" if "k \<le> n" for k n :: nat
    using that by auto
  have "distinct (drop (n div 2) [0 ..< n] @ take (n div 2) [0 ..< n])
      \<and> set (drop (n div 2) [0 ..< n] @ take (n div 2) [0 ..< n]) = {..<n}" for n :: nat
    by (rule halves) simp
  then show ?thesis
    unfolding split_contract_def memo_lib_def by (simp only: lib.simps fst_conv snd_conv) simp
qed

text \<open>
  C6, as amended. For every seed from \<open>0\<close> to \<open>2**32 - 1\<close>, when scikit-learn's
  split keeps its contract, \<open>gen_data\<close> answers three partitions whose index labels
  are distinct and are all the labels \<open>0, ..., 499\<close> of the dataset, each row and
  each target being the one the dataset has under that label. They come from the two
  calls of \<open>train_test_split\<close> that \<open>gen_data\<close> makes, with the same seed: the
  first, on all \<open>500\<close> rows, takes the test set off; the second splits the rest in
  train and validation.
\<close>

theorem gen_data_partitions:
  assumes "split_contract (split_positions L)" and "0 \<le> seed" and "seed < 2 ^ 32"
  shows "\<exists>x_train x_valid x_test y_train y_valid y_test g1 names full_df features goal
            x_not_test y_not_test.
      gen_data L seed g
        = Inr ((x_train, x_valid, x_test, y_train, y_valid, y_test), g1,
               [(500, 1 / 2, seed), (len_df x_not_test, 1 / 5, seed)])
    \<and> distinct (df_index x_train @ df_index x_valid @ df_index x_test)
    \<and> set (df_index x_train @ df_index x_valid @ df_index x_test) = {..<500}
    \<and> s_index y_train = df_index x_train \<and> s_index y_valid = df_index x_valid
    \<and> s_index y_test = df_index x_test
    \<and> gen_full_df L seed = Inr (names, full_df, g1)
    \<and> df_index full_df = [0 ..< 500]
    \<and> df_rows x_train = map (\<lambda>i. take 100 (df_rows full_df ! i)) (df_index x_train)
    \<and> df_rows x_valid = map (\<lambda>i. take 100 (df_rows full_df ! i)) (df_index x_valid)
    \<and> df_rows x_test = map (\<lambda>i. take 100 (df_rows full_df ! i)) (df_index x_test)
    \<and> s_values y_train = map (\<lambda>i. df_rows full_df ! i ! 100) (df_index x_train)
    \<and> s_values y_valid = map (\<lambda>i. df_rows full_df ! i ! 100) (df_index x_valid)
    \<and> s_values y_test = map (\<lambda>i. df_rows full_df ! i ! 100) (df_index x_test)
    \<and> df_getitem_list full_df names = Inr features
    \<and> df_getitem full_df ''y'' = Inr goal
    \<and> train_test_split L features goal (1 / 2) seed []
        = Inr ((x_not_test, x_test, y_not_test, y_test), [(500, 1 / 2, seed)])
    \<and> train_test_split L x_not_test y_not_test (1 / 5) seed [(500, 1 / 2, seed)]
        = Inr ((x_train, x_valid, y_train, y_valid),
               [(500, 1 / 2, seed), (len_df x_not_test, 1 / 5, seed)])
    \<and> len_df x_not_test = length (fst (split_positions L 500 (1 / 2) seed))"
  by (rule gen_data_two_splits [OF assms])

theorem gen_data_partitions_witness:
  "split_contract (split_positions memo_lib) \<and> (0::int) \<le> 42 \<and> (42::int) < 2 ^ 32
   \<and> (\<exists>x_train x_valid x_test y_train y_valid y_test g1 names full_df features goal
            x_not_test y_not_test.
      gen_data memo_lib 42 0
        = Inr ((x_train, x_valid, x_test, y_train, y_valid, y_test), g1,
               [(500, 1 / 2, 42), (len_df x_not_test, 1 / 5, 42)])
    \<and> distinct (df_index x_train @ df_index x_valid @ df_index x_test)
    \<and> set (df_index x_train @ df_index x_valid @ df_index x_test) = {..<500}
    \<and> s_index y_train = df_index x_train \<and> s_index y_valid = df_index x_valid
    \<and> s_index y_test = df_index x_test
    \<and> gen_full_df memo_lib 42 = Inr (names, full_df, g1)
    \<and> df_index full_df = [0 ..< 500]
    \<and> df_rows x_train = map (\<lambda>i. take 100 (df_rows full_df ! i)) (df_index x_train)
    \<and> df_rows x_valid = map (\<lambda>i. take 100 (df_rows full_df ! i)) (df_index x_valid)
    \<and> df_rows x_test = map (\<lambda>i. take 100 (df_rows full_df ! i)) (df_index x_test)
    \<and> s_values y_train = map (\<lambda>i. df_rows full_df ! i ! 100) (df_index x_train)
    \<and> s_values y_valid = map (\<lambda>i. df_rows full_df ! i ! 100) (df_index x_valid)
    \<and> s_values y_test = map (\<lambda>i. df_rows full_df ! i ! 100) (df_index x_test)
    \<and> df_getitem_list full_df names = Inr features
    \<and> df_getitem full_df ''y'' = Inr goal
    \<and> train_test_split memo_lib features goal (1 / 2) 42 []
        = Inr ((x_not_test, x_test, y_not_test, y_test), [(500, 1 / 2, 42)])
    \<and> train_test_split memo_lib x_not_test y_not_test (1 / 5) 42 [(500, 1 / 2, 42)]
        = Inr ((x_train, x_valid, y_train, y_valid),
               [(500, 1 / 2, 42), (len_df x_not_test, 1 / 5, 42)])
    \<and> len_df x_not_test = length (fst (split_positions memo_lib 500 (1 / 2) 42)))"
proof -
  have s1: "(0::int) \<le> 42" and s2: "(42::int) < 2 ^ 32" by simp_all
  note t = gen_data_partitions [OF memo_split_contract s1 s2, of 0]
  show ?thesis by (rule conjI [OF memo_split_contract conjI [OF s1 conjI [OF s2 t]]])
qed

text \<open>
  C6, as stated, fails twice. On the seed \<open>-1\<close> \<open>gen_data\<close> raises and answers no
  partition. And the partitions are not the work of a single split: on the seed
  \<open>42\<close>, \<open>gen_data\<close> has called \<open>train_test_split\<close> twice when it returns, on
  \<open>500\<close> rows and then on the \<open>250\<close> rows the first call left for training.
\<close>

theorem gen_data_partitions_counterexample:
  "gen_data memo_lib (- 1) 0 = Inl ValueError
   \<and> split_calls (gen_data memo_lib 42 0) = [(500, 1 / 2, 42), (250, 1 / 5, 42)]
   \<and> length (split_calls (gen_data memo_lib 42 0)) \<noteq> 1"
proof -
  have s1: "(0::int) \<le> 42" and s2: "(42::int) < 2 ^ 32" by simp_all
  from gen_data_two_splits [OF memo_split_contract s1 s2, of 0]
  obtain parts g1 x_not_test where
    gd: "gen_data memo_lib 42 0
           = Inr (parts, g1, [(500, 1 / 2, 42), (len_df x_not_test, 1 / 5, 42)])"
    and ln: "len_df x_not_test = length (fst (split_positions memo_lib 500 (1 / 2) 42))"
    by blast
  have "length (fst (split_positions memo_lib 500 (1 / 2) 42)) = 250"
    by (simp add: memo_lib_def)
  with gd ln have "split_calls (gen_data memo_lib 42 0) = [(500, 1 / 2, 42), (250, 1 / 5, 42)]"
    by (simp add: split_calls_def)
  moreover have "gen_data memo_lib (- 1) 0 = Inl ValueError"
    using gen_data_refuses [of "- 1" memo_lib 0] by simp
  ultimately show ?thesis by simp
qed

text \<open>
  C7. \<open>gen_data\<close> depends on its seed alone: whatever state the global generator is
  in when it is called, \<open>gen_data(seed)\<close> answers the same six-tuple (or the same
  error) and leaves the generator in the same state, since \<open>np.random.seed(seed)\<close>
  comes first and both splits are seeded.
\<close>

theorem gen_data_deterministic:
  "gen_data L seed g = gen_data L seed g'"
  by (simp add: gen_data_def)

end
